theory Spec2Isabelle
  imports Complex_Main "HOL-Library.AList"
begin

section \<open>Python values and the builtins the agent applies to them\<close>

text \<open>
  The arguments of a function call arrive as a JSON object. A value is one of the JSON
  shapes; a dict is an association list in insertion order, read with \<open>map_of\<close> and
  written with \<open>AList.update\<close> (an existing key keeps its place, a new key goes last,
  as in Python). A \<open>VFloat\<close> is a finite float.
\<close>

datatype pyval =
    VNone
  | VBool bool
  | VInt int
  | VFloat rat
  | VStr string
  | VList "pyval list"
  | VDict "(string \<times> pyval) list"

type_synonym dict = "(string \<times> pyval) list"

datatype exn =
    ValueError string
  | KeyError string
  | TypeError string
  | AttributeError string
  | OverflowError string
  | IndexError string
  | EOFError
  | NameError string
  | DriverError string

text \<open>\<open>str(e)\<close>: the message; for a \<open>KeyError\<close> the repr of the (plain ASCII) key.\<close>

fun str_exn :: "exn \<Rightarrow> string" where
  "str_exn (ValueError m) = m"
| "str_exn (KeyError k) = [CHR 0x27] @ k @ [CHR 0x27]"
| "str_exn (TypeError m) = m"
| "str_exn (AttributeError m) = m"
| "str_exn (OverflowError m) = m"
| "str_exn (IndexError m) = m"
| "str_exn EOFError = []"
| "str_exn (NameError m) = m"
| "str_exn (DriverError m) = m"

definition bind_exn :: "exn + 'a \<Rightarrow> ('a \<Rightarrow> exn + 'b) \<Rightarrow> exn + 'b" where
  "bind_exn r f = (case r of Inl e \<Rightarrow> Inl e | Inr v \<Rightarrow> f v)"

fun type_name :: "pyval \<Rightarrow> string" where
  "type_name VNone = ''NoneType''"
| "type_name (VBool b) = ''bool''"
| "type_name (VInt n) = ''int''"
| "type_name (VFloat q) = ''float''"
| "type_name (VStr s) = ''str''"
| "type_name (VList l) = ''list''"
| "type_name (VDict d) = ''dict''"

subsection \<open>String methods on ASCII\<close>

text \<open>
  A string is the list of the bytes of its UTF-8 encoding. On a string that is all ASCII
  Python's \<open>lower\<close>, \<open>title\<close> and \<open>strip\<close> are the functions below; on any other
  string they follow the Unicode tables, which belong to the interpreter (see
  \<open>py_lower\<close>, \<open>py_title\<close> and \<open>py_strip\<close>).
\<close>

definition is_ascii :: "string \<Rightarrow> bool" where
  "is_ascii s = list_all (\<lambda>c. (of_char c :: nat) < 128) s"

definition is_upper :: "char \<Rightarrow> bool" where
  "is_upper c = (let n = (of_char c :: nat) in 65 \<le> n \<and> n \<le> 90)"

definition is_lower :: "char \<Rightarrow> bool" where
  "is_lower c = (let n = (of_char c :: nat) in 97 \<le> n \<and> n \<le> 122)"

definition is_space :: "char \<Rightarrow> bool" where
  "is_space c = (let n = (of_char c :: nat) in (9 \<le> n \<and> n \<le> 13) \<or> (28 \<le> n \<and> n \<le> 32))"

definition to_lower :: "char \<Rightarrow> char" where
  "to_lower c = (if is_upper c then char_of (of_char c + (32 :: nat)) else c)"

definition to_upper :: "char \<Rightarrow> char" where
  "to_upper c = (if is_lower c then char_of (of_char c - (32 :: nat)) else c)"

definition ascii_lower :: "string \<Rightarrow> string" where
  "ascii_lower s = map to_lower s"

definition ascii_strip :: "string \<Rightarrow> string" where
  "ascii_strip s = rev (dropWhile is_space (rev (dropWhile is_space s)))"

text \<open>\<open>str.title\<close>: a cased letter is upper-cased after an uncased character and
  lower-cased after a cased one.\<close>

fun title_from :: "bool \<Rightarrow> string \<Rightarrow> string" where
  "title_from previous_is_cased [] = []"
| "title_from previous_is_cased (c # cs) =
     (if is_lower c then
        (if previous_is_cased then c else to_upper c) # title_from True cs
      else if is_upper c then
        (if previous_is_cased then to_lower c else c) # title_from True cs
      else c # title_from False cs)"

definition ascii_title :: "string \<Rightarrow> string" where
  "ascii_title s = title_from False s"

definition startswith :: "string \<Rightarrow> string \<Rightarrow> bool" where
  "startswith s p = (take (length p) s = p)"

definition join :: "string \<Rightarrow> string list \<Rightarrow> string" where
  "join sep xs = (case xs of [] \<Rightarrow> [] | y # ys \<Rightarrow> y @ concat (map (\<lambda>z. sep @ z) ys))"

subsection \<open>Double-precision arithmetic\<close>

text \<open>
  A Python float is an IEEE 754 double: here a rational with a 53-bit significand, or an
  infinity. \<open>round_double\<close> is rounding to nearest, ties to even: the significand \<open>m\<close>
  is the value divided by its quantum \<open>2^p\<close> and rounded, the quantum is never below
  the subnormal \<open>2^-1074\<close>, and the result overflows when \<open>m * 2^p\<close> reaches
  \<open>2^1024\<close>, that is when the bit length of \<open>m\<close> plus \<open>p\<close> exceeds 1024. \<open>bits\<close> is
  the bit length, \<open>flog2\<close> the exponent of the leading bit. The sign of an infinity is
  not kept: \<open>int\<close> refuses both.
\<close>

function bits :: "int \<Rightarrow> int" where
  "bits n = (if n \<le> 0 then 0 else 1 + bits (n div 2))"
  by pat_completeness auto
termination
  by (relation "measure nat") auto

declare bits.simps [simp del]

definition two_pow :: "int \<Rightarrow> rat" where
  "two_pow k = (if 0 \<le> k then of_int (2 ^ nat k) else 1 / of_int (2 ^ nat (- k)))"

definition flog2 :: "rat \<Rightarrow> int" where
  "flog2 q = (let (a, b) = quotient_of \<bar>q\<bar>;
                  k = bits a - bits b
              in if two_pow k \<le> \<bar>q\<bar> then k else k - 1)"

definition round_half_even :: "rat \<Rightarrow> int" where
  "round_half_even q =
     (let n = \<lfloor>q\<rfloor>; r = q - of_int n
      in if r < 1 / 2 then n
         else if 1 / 2 < r then n + 1
         else if even n then n else n + 1)"

datatype pyfloat = Finite rat | Infinite

definition round_double :: "rat \<Rightarrow> pyfloat" where
  "round_double q =
     (if q = 0 then Finite 0
      else let p = max (flog2 q - 52) (- 1074);
               m = round_half_even (q / two_pow p)
           in if 1024 < bits \<bar>m\<bar> + p then Infinite else Finite (of_int m * two_pow p))"

text \<open>\<open>a / b\<close> on two ints (\<open>b\<close> is never zero here), \<open>float(n)\<close>, the product of two
  floats, and \<open>int(f)\<close>, which truncates toward zero.\<close>

definition int_truediv :: "int \<Rightarrow> int \<Rightarrow> exn + rat" where
  "int_truediv a b =
     (case round_double (of_int a / of_int b) of
        Infinite \<Rightarrow> Inl (OverflowError ''integer division result too large for a float'')
      | Finite q \<Rightarrow> Inr q)"

definition float_of_int :: "int \<Rightarrow> exn + rat" where
  "float_of_int n =
     (case round_double (of_int n) of
        Infinite \<Rightarrow> Inl (OverflowError ''int too large to convert to float'')
      | Finite q \<Rightarrow> Inr q)"

definition float_mul :: "rat \<Rightarrow> rat \<Rightarrow> pyfloat" where
  "float_mul a b = round_double (a * b)"

definition trunc :: "rat \<Rightarrow> int" where
  "trunc q = (if 0 \<le> q then \<lfloor>q\<rfloor> else \<lceil>q\<rceil>)"

definition int_of_float :: "pyfloat \<Rightarrow> exn + int" where
  "int_of_float f =
     (case f of
        Infinite \<Rightarrow> Inl (OverflowError ''cannot convert float infinity to integer'')
      | Finite q \<Rightarrow> Inr (trunc q))"

section \<open>The coordinate normalizer and the URL scheme\<close>

definition SCREEN_WIDTH :: int where
  "SCREEN_WIDTH = 1440"

definition SCREEN_HEIGHT :: int where
  "SCREEN_HEIGHT = 900"

text \<open>\<open>int(x / 1000 * screen_width)\<close>, evaluated left to right.\<close>

definition denormalize_x :: "int \<Rightarrow> int \<Rightarrow> exn + int" where
  "denormalize_x x screen_width =
     bind_exn (int_truediv x 1000) (\<lambda>q.
     bind_exn (float_of_int screen_width) (\<lambda>w.
     int_of_float (float_mul q w)))"

definition denormalize_y :: "int \<Rightarrow> int \<Rightarrow> exn + int" where
  "denormalize_y y screen_height =
     bind_exn (int_truediv y 1000) (\<lambda>q.
     bind_exn (float_of_int screen_height) (\<lambda>h.
     int_of_float (float_mul q h)))"

definition ensure_url_scheme :: "string \<Rightarrow> string" where
  "ensure_url_scheme url =
     (if startswith url ''http://'' \<or> startswith url ''https://'' then url
      else if url \<noteq> [] then ''https://'' @ url else url)"

section \<open>The interpreter and the world around the agent\<close>

text \<open>
  \<open>int(s)\<close> on a string, \<open>str(v)\<close> on a float, list or dict, and the string methods
  on a string that is not all ASCII are the interpreter's own and are taken as
  parameters, as are the browser and the remote model. A page is the log of the driver
  calls made on it so far, oldest first, a call that raised included; whether a call
  raises, what the page's address is and what a screenshot shows are functions of that
  log. Console output is not modelled.
\<close>

datatype event =
    Goto string string
  | Click int int
  | Press string
  | TypeText string int
  | Wheel int int
  | WaitForLoadState string int
  | Sleep rat
  | Screenshot string

type_synonym page = "event list"

record function_call =
  fc_name :: string
  fc_args :: "dict option"

record blob =
  mime_type :: string
  data :: string

record function_response =
  fr_name :: string
  fr_response :: dict
  fr_parts :: "blob list"

record part =
  part_text :: "string option"
  part_function_call :: "function_call option"
  part_function_response :: "function_response option"

record content =
  role :: string
  parts :: "part list"

record candidate =
  cand_content :: content

record env =
  int_of_str :: "string \<Rightarrow> exn + int"
  str_of_val :: "pyval \<Rightarrow> string"
  unicode_lower :: "string \<Rightarrow> string"
  unicode_title :: "string \<Rightarrow> string"
  unicode_strip :: "string \<Rightarrow> string"
  driver_raises :: "page \<Rightarrow> event \<Rightarrow> string option"
  page_url :: "page \<Rightarrow> string"
  page_screenshot :: "page \<Rightarrow> string"
  generate_content :: "content list \<Rightarrow> exn + candidate list"

record world =
  browser :: page
  stdin :: "string list"

subsection \<open>Builtins on values\<close>

definition py_lower :: "env \<Rightarrow> string \<Rightarrow> string" where
  "py_lower env s = (if is_ascii s then ascii_lower s else unicode_lower env s)"

definition py_title :: "env \<Rightarrow> string \<Rightarrow> string" where
  "py_title env s = (if is_ascii s then ascii_title s else unicode_title env s)"

definition py_strip :: "env \<Rightarrow> string \<Rightarrow> string" where
  "py_strip env s = (if is_ascii s then ascii_strip s else unicode_strip env s)"

fun digit_str :: "nat \<Rightarrow> string" where
  "digit_str n = (if n < 10 then [char_of (48 + n)] else digit_str (n div 10) @ [char_of (48 + n mod 10)])"

declare digit_str.simps [simp del]

definition str_int :: "int \<Rightarrow> string" where
  "str_int n = (if n < 0 then ''-'' @ digit_str (nat (- n)) else digit_str (nat n))"

definition py_str :: "env \<Rightarrow> pyval \<Rightarrow> string" where
  "py_str env v =
     (case v of
        VStr s \<Rightarrow> s
      | VNone \<Rightarrow> ''None''
      | VBool b \<Rightarrow> (if b then ''True'' else ''False'')
      | VInt n \<Rightarrow> str_int n
      | _ \<Rightarrow> str_of_val env v)"

fun py_bool :: "pyval \<Rightarrow> bool" where
  "py_bool VNone = False"
| "py_bool (VBool b) = b"
| "py_bool (VInt n) = (n \<noteq> 0)"
| "py_bool (VFloat q) = (q \<noteq> 0)"
| "py_bool (VStr s) = (s \<noteq> [])"
| "py_bool (VList l) = (l \<noteq> [])"
| "py_bool (VDict d) = (d \<noteq> [])"

definition py_int :: "env \<Rightarrow> pyval \<Rightarrow> exn + int" where
  "py_int env v =
     (case v of
        VInt n \<Rightarrow> Inr n
      | VBool b \<Rightarrow> Inr (if b then 1 else 0)
      | VFloat q \<Rightarrow> Inr (trunc q)
      | VStr s \<Rightarrow> int_of_str env s
      | _ \<Rightarrow> Inl (TypeError
          (''int() argument must be a string, a bytes-like object or a real number, not ''
            @ [CHR 0x27] @ type_name v @ [CHR 0x27])))"

text \<open>\<open>d.get(k, default)\<close> and \<open>d[k]\<close>.\<close>

definition dict_get :: "dict \<Rightarrow> string \<Rightarrow> pyval \<Rightarrow> pyval" where
  "dict_get d k dflt = (case map_of d k of None \<Rightarrow> dflt | Some v \<Rightarrow> v)"

definition dict_item :: "dict \<Rightarrow> string \<Rightarrow> exn + pyval" where
  "dict_item d k = (case map_of d k of None \<Rightarrow> Inl (KeyError k) | Some v \<Rightarrow> Inr v)"

definition dict_update :: "dict \<Rightarrow> dict \<Rightarrow> dict" where
  "dict_update d other = fold (\<lambda>(k, v). AList.update k v) other d"

subsection \<open>Driver calls\<close>

text \<open>
  A statement of the \<open>try\<close> body either completes (\<open>None\<close>) or raises; either way it
  leaves a page. \<open>and_then\<close> is the semicolon: the second statement runs only when the
  first did not raise.
\<close>

definition driver :: "env \<Rightarrow> event \<Rightarrow> page \<Rightarrow> exn option \<times> page" where
  "driver env ev pg =
     (case driver_raises env pg ev of
        Some m \<Rightarrow> (Some (DriverError m), pg @ [ev])
      | None \<Rightarrow> (None, pg @ [ev]))"

definition and_then :: "exn option \<times> page \<Rightarrow> (page \<Rightarrow> exn option \<times> page) \<Rightarrow> exn option \<times> page" where
  "and_then r f = (case r of (Some e, pg) \<Rightarrow> (Some e, pg) | (None, pg) \<Rightarrow> f pg)"

section \<open>The safety gate\<close>

text \<open>
  The operator's console is the list of lines still to be read; \<open>input\<close> on an exhausted
  console raises \<open>EOFError\<close>. The prompt is repeated until a line is one of the four
  tokens.
\<close>

fun get_safety_confirmation ::
  "env \<Rightarrow> dict \<Rightarrow> string list \<Rightarrow> exn + (string \<times> string list)"
where
  "get_safety_confirmation env safety_decision [] = Inl EOFError"
| "get_safety_confirmation env safety_decision (line # rest) =
     (let decision = py_strip env line in
      if py_lower env decision \<notin> set [''y'', ''n'', ''yes'', ''no'']
      then get_safety_confirmation env safety_decision rest
      else if py_lower env decision \<in> set [''n'', ''no''] then Inr (''TERMINATE'', rest)
      else Inr (''CONTINUE'', rest))"

section \<open>The action executor\<close>

text \<open>The arguments \<open>x\<close> and \<open>y\<close>, read, converted and scaled in the order of the source.\<close>

definition pixel_coords :: "env \<Rightarrow> dict \<Rightarrow> int \<Rightarrow> int \<Rightarrow> exn + (int \<times> int)" where
  "pixel_coords env args screen_width screen_height =
     bind_exn (dict_item args ''x'') (\<lambda>vx.
     bind_exn (py_int env vx) (\<lambda>x.
     bind_exn (denormalize_x x screen_width) (\<lambda>actual_x.
     bind_exn (dict_item args ''y'') (\<lambda>vy.
     bind_exn (py_int env vy) (\<lambda>y.
     bind_exn (denormalize_y y screen_height) (\<lambda>actual_y.
     Inr (actual_x, actual_y)))))))"

definition navigate :: "env \<Rightarrow> dict \<Rightarrow> page \<Rightarrow> exn option \<times> page" where
  "navigate env args pg =
     (let url = ensure_url_scheme (py_str env (dict_get args ''url'' (VStr [])))
      in if url = [] then (Some (ValueError ''Missing 'url' argument for navigate''), pg)
         else driver env (Goto url ''domcontentloaded'') pg)"

definition click_at :: "env \<Rightarrow> dict \<Rightarrow> int \<Rightarrow> int \<Rightarrow> page \<Rightarrow> exn option \<times> page" where
  "click_at env args screen_width screen_height pg =
     (case pixel_coords env args screen_width screen_height of
        Inl e \<Rightarrow> (Some e, pg)
      | Inr (actual_x, actual_y) \<Rightarrow> driver env (Click actual_x actual_y) pg)"

definition type_text_at :: "env \<Rightarrow> dict \<Rightarrow> int \<Rightarrow> int \<Rightarrow> page \<Rightarrow> exn option \<times> page" where
  "type_text_at env args screen_width screen_height pg =
     (case pixel_coords env args screen_width screen_height of
        Inl e \<Rightarrow> (Some e, pg)
      | Inr (actual_x, actual_y) \<Rightarrow>
          (let txt = py_str env (dict_get args ''text'' (VStr []));
               press_enter = py_bool (dict_get args ''press_enter'' (VBool True));
               clear_before_typing = py_bool (dict_get args ''clear_before_typing'' (VBool True))
           in and_then (driver env (Click actual_x actual_y) pg) (\<lambda>pg.
              and_then (if clear_before_typing
                        then and_then (driver env (Press ''Meta+A'') pg)
                                      (driver env (Press ''Backspace''))
                        else (None, pg)) (\<lambda>pg.
              and_then (if txt \<noteq> [] then driver env (TypeText txt 15) pg else (None, pg)) (\<lambda>pg.
              if press_enter then driver env (Press ''Enter'') pg else (None, pg))))))"

definition key_combination :: "env \<Rightarrow> dict \<Rightarrow> page \<Rightarrow> exn option \<times> page" where
  "key_combination env args pg =
     (let keys = py_strip env (py_str env (dict_get args ''keys'' (VStr [])))
      in if keys = [] then (Some (ValueError ''Missing 'keys' argument for key_combination''), pg)
         else let normalized = (if py_lower env keys \<noteq> ''enter'' then py_title env keys
                                else ''Enter'')
              in driver env (Press normalized) pg)"

text \<open>\<open>(args.get("direction") or "down").lower()\<close>: only a string has \<open>lower\<close>.\<close>

definition scroll_direction :: "env \<Rightarrow> dict \<Rightarrow> exn + string" where
  "scroll_direction env args =
     (let v = dict_get args ''direction'' VNone;
          d = (if py_bool v then v else VStr ''down'')
      in case d of
           VStr s \<Rightarrow> Inr (py_lower env s)
         | _ \<Rightarrow> Inl (AttributeError
             ([CHR 0x27] @ type_name d @ [CHR 0x27] @ '' object has no attribute ''
               @ [CHR 0x27] @ ''lower'' @ [CHR 0x27])))"

definition scroll_document :: "env \<Rightarrow> dict \<Rightarrow> page \<Rightarrow> exn option \<times> page" where
  "scroll_document env args pg =
     (case scroll_direction env args of
        Inl e \<Rightarrow> (Some e, pg)
      | Inr direction \<Rightarrow>
          if direction \<notin> set [''up'', ''down'', ''left'', ''right'']
          then (Some (ValueError ''direction must be up, down, left, or right''), pg)
          else (case py_int env (dict_get args ''magnitude'' (VInt 800)) of
                  Inl e \<Rightarrow> (Some e, pg)
                | Inr magnitude \<Rightarrow>
                    (let (dx, dy) =
                       (if direction = ''down'' then (0, magnitude)
                        else if direction = ''up'' then (0, - magnitude)
                        else if direction = ''right'' then (magnitude, 0)
                        else if direction = ''left'' then (- magnitude, 0)
                        else (0, 0))
                     in driver env (Wheel dx dy) pg)))"

text \<open>The chain of \<open>if\<close>/\<open>elif\<close> on the function's name; an unknown name does nothing.\<close>

definition perform :: "env \<Rightarrow> string \<Rightarrow> dict \<Rightarrow> int \<Rightarrow> int \<Rightarrow> page \<Rightarrow> exn option \<times> page" where
  "perform env fname args screen_width screen_height pg =
     (if fname = ''open_web_browser'' then (None, pg)
      else if fname = ''navigate'' then navigate env args pg
      else if fname = ''click_at'' then click_at env args screen_width screen_height pg
      else if fname = ''type_text_at'' then type_text_at env args screen_width screen_height pg
      else if fname = ''key_combination'' then key_combination env args pg
      else if fname = ''scroll_document'' then scroll_document env args pg
      else (None, pg))"

text \<open>The settle step: the wait may time out, which is swallowed; then the pause.\<close>

definition settle :: "env \<Rightarrow> page \<Rightarrow> exn option \<times> page" where
  "settle env pg =
     (let (timed_out, pg1) = driver env (WaitForLoadState ''networkidle'' 5000) pg
      in (None, pg1 @ [Sleep (4 / 5)]))"

text \<open>
  The \<open>try\<close> statement: the action, then the settle step, both inside the \<open>try\<close>; the
  handler turns whatever was raised into the action's result.
\<close>

type_synonym entry = "string \<times> dict \<times> dict"

definition try_action :: "env \<Rightarrow> string \<Rightarrow> dict \<Rightarrow> int \<Rightarrow> int \<Rightarrow> page \<Rightarrow> dict \<times> page" where
  "try_action env fname args screen_width screen_height pg =
     (case and_then (perform env fname args screen_width screen_height pg) (settle env) of
        (None, pg') \<Rightarrow> ([], pg')
      | (Some e, pg') \<Rightarrow> ([(''error'', VStr (str_exn e))], pg'))"

text \<open>
  The loop over the function calls of the turn. It returns the results, whether the
  operator terminated, and the world it leaves; an \<open>EOFError\<close> from the console is not
  caught and ends it.
\<close>

text \<open>\<open>dict(function_call.args or {})\<close>\<close>

definition call_args :: "function_call \<Rightarrow> dict" where
  "call_args fc = (case fc_args fc of None \<Rightarrow> [] | Some d \<Rightarrow> d)"

fun execute_calls ::
  "env \<Rightarrow> int \<Rightarrow> int \<Rightarrow> function_call list \<Rightarrow> entry list \<Rightarrow> world \<Rightarrow> exn + (entry list \<times> bool \<times> world)"
where
  "execute_calls env screen_width screen_height [] results w = Inr (results, False, w)"
| "execute_calls env screen_width screen_height (fc # fcs) results w =
     (let fname = fc_name fc;
          args = call_args fc
      in case dict_get args ''safety_decision'' VNone of
           VDict safety_decision \<Rightarrow>
             (case get_safety_confirmation env safety_decision (stdin w) of
                Inl e \<Rightarrow> Inl e
              | Inr (decision, rest) \<Rightarrow>
                  if decision = ''TERMINATE''
                  then Inr (results @ [(fname, [(''terminated_by_user'', VBool True)],
                                         [(''safety_acknowledgement'', VStr ''false'')])],
                            True, w\<lparr>stdin := rest\<rparr>)
                  else (let (action_result, pg) =
                              try_action env fname args screen_width screen_height (browser w)
                        in execute_calls env screen_width screen_height fcs
                             (results @ [(fname, action_result,
                                          [(''safety_acknowledgement'', VStr ''true'')])])
                             (w\<lparr>browser := pg, stdin := rest\<rparr>)))
         | _ \<Rightarrow>
             (let (action_result, pg) =
                    try_action env fname args screen_width screen_height (browser w)
              in execute_calls env screen_width screen_height fcs
                   (results @ [(fname, action_result, [])])
                   (w\<lparr>browser := pg\<rparr>)))"

definition function_calls_of :: "candidate \<Rightarrow> function_call list" where
  "function_calls_of cand =
     concat (map (\<lambda>p. case part_function_call p of None \<Rightarrow> [] | Some fc \<Rightarrow> [fc])
                 (parts (cand_content cand)))"

definition execute_function_calls ::
  "env \<Rightarrow> candidate \<Rightarrow> world \<Rightarrow> int \<Rightarrow> int \<Rightarrow> exn + (entry list \<times> bool \<times> world)"
where
  "execute_function_calls env cand w screen_width screen_height =
     execute_calls env screen_width screen_height (function_calls_of cand) [] w"

section \<open>The response builder\<close>

definition build_response :: "string \<Rightarrow> string \<Rightarrow> entry \<Rightarrow> function_response" where
  "build_response current_url screenshot_bytes e =
     (case e of (name, result, extra_fields) \<Rightarrow>
        (let response_data = [(''url'', VStr current_url)];
             response_data = (if result \<noteq> [] then dict_update response_data result
                              else response_data);
             response_data = (if extra_fields \<noteq> [] then dict_update response_data extra_fields
                              else response_data)
         in \<lparr>fr_name = name, fr_response = response_data,
             fr_parts = [\<lparr>mime_type = ''image/png'', data = screenshot_bytes\<rparr>]\<rparr>))"

text \<open>The capture is a driver call like any other and may raise; nothing catches it
  here. The address is read after the capture.\<close>

definition get_function_responses ::
  "env \<Rightarrow> page \<Rightarrow> entry list \<Rightarrow> exn + (function_response list \<times> page)"
where
  "get_function_responses env pg results =
     (case driver env (Screenshot ''png'') pg of
        (Some e, pg1) \<Rightarrow> Inl e
      | (None, pg1) \<Rightarrow>
          (let screenshot_bytes = page_screenshot env pg;
               current_url = page_url env pg1
           in Inr (map (build_response current_url screenshot_bytes) results, pg1)))"

section \<open>The agent loop\<close>

text \<open>
  A session holds the conversation, the world, and the requests the remote model has
  received so far (the history sent with each, oldest first). The loop of
  \<open>run_agent_loop\<close> has three ways out, named here after the way taken: the \<open>break\<close>
  on a turn without function calls, the \<open>break\<close> on \<open>terminated\<close>, and the end of
  \<open>range(turn_limit)\<close>.
\<close>

datatype reason = FinalAnswer string | UserTerminated | TurnLimitReached

record session =
  contents :: "content list"
  sworld :: world
  requests :: "content list list"

definition has_function_calls :: "candidate \<Rightarrow> bool" where
  "has_function_calls cand = (\<exists>p \<in> set (parts (cand_content cand)). part_function_call p \<noteq> None)"

definition text_response :: "candidate \<Rightarrow> string" where
  "text_response cand =
     join '' '' (concat (map (\<lambda>p. case part_text p of None \<Rightarrow> [] | Some t \<Rightarrow> if t \<noteq> [] then [t] else [])
                             (parts (cand_content cand))))"

definition response_content :: "function_response list \<Rightarrow> content" where
  "response_content function_responses =
     \<lparr>role = ''user'',
      parts = map (\<lambda>fr. \<lparr>part_text = None, part_function_call = None,
                           part_function_response = Some fr\<rparr>) function_responses\<rparr>"

text \<open>One pass through the loop body: \<open>None\<close> when it falls through to the next
  iteration, the reason when it breaks.\<close>

definition agent_turn :: "env \<Rightarrow> session \<Rightarrow> exn + (reason option \<times> session)" where
  "agent_turn env st =
     (case generate_content env (contents st) of
        Inl e \<Rightarrow> Inl e
      | Inr [] \<Rightarrow> Inl (IndexError ''list index out of range'')
      | Inr (cand # others) \<Rightarrow>
          (let st1 = st\<lparr>contents := contents st @ [cand_content cand],
                        requests := requests st @ [contents st]\<rparr>
           in if \<not> has_function_calls cand then Inr (Some (FinalAnswer (text_response cand)), st1)
              else (case execute_function_calls env cand (sworld st1) SCREEN_WIDTH SCREEN_HEIGHT of
                      Inl e \<Rightarrow> Inl e
                    | Inr (results, terminated, w) \<Rightarrow>
                        (case get_function_responses env (browser w) results of
                           Inl e \<Rightarrow> Inl e
                         | Inr (function_responses, pg) \<Rightarrow>
                             (let st2 = st1\<lparr>contents := contents st1
                                                    @ [response_content function_responses],
                                            sworld := w\<lparr>browser := pg\<rparr>\<rparr>
                              in if terminated then Inr (Some UserTerminated, st2)
                                 else Inr (None, st2))))))"

text \<open>\<open>for i in range(turn_limit)\<close>, counted down.\<close>

fun agent_loop :: "env \<Rightarrow> nat \<Rightarrow> session \<Rightarrow> exn + (reason \<times> session)" where
  "agent_loop env 0 st = Inr (TurnLimitReached, st)"
| "agent_loop env (Suc n) st =
     (case agent_turn env st of
        Inl e \<Rightarrow> Inl e
      | Inr (Some r, st') \<Rightarrow> Inr (r, st')
      | Inr (None, st') \<Rightarrow> agent_loop env n st')"

definition turn_limit :: nat where
  "turn_limit = 10"

text \<open>
  \<open>run_agent_loop\<close> as the source has it. Its body is the loop alone: where the
  conversation and the configuration should be set up there is a comment. The loop reads
  the names \<open>contents\<close> and \<open>config\<close>; the function assigns neither, so both are looked
  up in the module, which binds its imports, \<open>SCREEN_WIDTH\<close>, \<open>SCREEN_HEIGHT\<close> and its
  seven functions, and no \<open>contents\<close>. The first pass of the loop (there is one, the
  limit being 10) evaluates the arguments of the model call in order and raises at
  \<open>contents\<close>, before the model is invoked. The parameter \<open>user_goal\<close> is never read.
\<close>

definition module_contents :: "content list option" where
  "module_contents = None"

definition run_agent_loop :: "env \<Rightarrow> world \<Rightarrow> string \<Rightarrow> exn + (reason \<times> session)" where
  "run_agent_loop env w user_goal =
     (case module_contents of
        None \<Rightarrow> Inl (NameError (''name '' @ [CHR 0x27] @ ''contents'' @ [CHR 0x27] @ '' is not defined''))
      | Some history \<Rightarrow>
          agent_loop env turn_limit \<lparr>contents = history, sworld = w, requests = []\<rparr>)"

section \<open>Notions used to state the properties\<close>

text \<open>The driver calls of \<open>type_text_at\<close> when nothing is typed.\<close>

definition type_text_events :: "bool \<Rightarrow> bool \<Rightarrow> int \<Rightarrow> int \<Rightarrow> event list" where
  "type_text_events clear enter ax ay =
     Click ax ay # (if clear then [Press ''Meta+A'', Press ''Backspace''] else [])
       @ (if enter then [Press ''Enter''] else [])"

text \<open>An entry whose two dicts leave the key \<open>url\<close> alone.\<close>

definition no_url_key :: "entry \<Rightarrow> bool" where
  "no_url_key e = (case e of (name, result, extra_fields) \<Rightarrow>
      map_of result ''url'' = None \<and> map_of extra_fields ''url'' = None)"

text \<open>
  The operator's verdict on a batch, read off the console alone (no action touches the
  console): the position of the first request whose safety decision the operator
  rejects, \<open>None\<close> when every decision asked is approved, the \<open>EOFError\<close> when the
  console runs out first.
\<close>

definition later :: "exn + nat option \<Rightarrow> exn + nat option" where
  "later v = (case v of Inl e \<Rightarrow> Inl e | Inr None \<Rightarrow> Inr None | Inr (Some k) \<Rightarrow> Inr (Some (Suc k)))"

fun first_rejection :: "env \<Rightarrow> function_call list \<Rightarrow> string list \<Rightarrow> exn + nat option" where
  "first_rejection env [] lines = Inr None"
| "first_rejection env (fc # fcs) lines =
     (case dict_get (call_args fc) ''safety_decision'' VNone of
        VDict safety_decision \<Rightarrow>
          (case get_safety_confirmation env safety_decision lines of
             Inl e \<Rightarrow> Inl e
           | Inr (decision, rest) \<Rightarrow>
               if decision = ''TERMINATE'' then Inr (Some 0)
               else later (first_rejection env fcs rest))
      | _ \<Rightarrow> later (first_rejection env fcs lines))"


text \<open>
  A URL scheme in the usual sense (RFC 3986): a letter, then letters, digits, \<open>+\<close>,
  \<open>-\<close> or \<open>.\<close>, then a colon. The source has no such test; this is the reading of
  the word against which \<open>ensure_url_scheme\<close> is compared.
\<close>

definition is_digit :: "char \<Rightarrow> bool" where
  "is_digit c = (let n = (of_char c :: nat) in 48 \<le> n \<and> n \<le> 57)"

definition scheme_char :: "char \<Rightarrow> bool" where
  "scheme_char c = (is_upper c \<or> is_lower c \<or> is_digit c \<or> c \<in> set ''+-.'')"

definition has_scheme :: "string \<Rightarrow> bool" where
  "has_scheme url =
     (case dropWhile scheme_char url of
        c # rest \<Rightarrow> c = CHR '':'' \<and> (is_upper (hd url) \<or> is_lower (hd url))
      | [] \<Rightarrow> False)"

subsection \<open>Concrete worlds\<close>

text \<open>
  An environment to run the definitions in: \<open>int\<close> reads plain decimal digits, the
  string methods leave the bytes above 127 alone, the page's address is that of the last navigation (the browser starts on Google), and a
  screenshot shows how many driver calls the page has seen.
\<close>

definition parse_decimal :: "string \<Rightarrow> exn + int" where
  "parse_decimal s =
     (if s \<noteq> [] \<and> list_all is_digit s
      then Inr (foldl (\<lambda>a c. 10 * a + (int (of_char c) - 48)) 0 s)
      else Inl (ValueError (''invalid literal for int() with base 10: ''
                 @ [CHR 0x27] @ s @ [CHR 0x27])))"

fun last_goto :: "string \<Rightarrow> page \<Rightarrow> string" where
  "last_goto u [] = u"
| "last_goto u (Goto v m # pg) = last_goto v pg"
| "last_goto u (ev # pg) = last_goto u pg"

definition test_env ::
  "(page \<Rightarrow> event \<Rightarrow> string option) \<Rightarrow> (content list \<Rightarrow> exn + candidate list) \<Rightarrow> env"
where
  "test_env raises model =
     \<lparr>int_of_str = parse_decimal,
      str_of_val = (\<lambda>v. ''<object>''),
      unicode_lower = ascii_lower,
      unicode_title = ascii_title,
      unicode_strip = ascii_strip,
      driver_raises = raises,
      page_url = last_goto ''https://www.google.com'',
      page_screenshot = (\<lambda>pg. ''PNG'' @ str_int (int (length pg))),
      generate_content = model\<rparr>"

definition never_raises :: "page \<Rightarrow> event \<Rightarrow> string option" where
  "never_raises pg ev = None"

definition click_raises :: "page \<Rightarrow> event \<Rightarrow> string option" where
  "click_raises pg ev = (case ev of Click x y \<Rightarrow> Some ''Target closed'' | _ \<Rightarrow> None)"

definition idle_times_out :: "page \<Rightarrow> event \<Rightarrow> string option" where
  "idle_times_out pg ev =
     (case ev of WaitForLoadState state timeout \<Rightarrow> Some ''Timeout 5000ms exceeded'' | _ \<Rightarrow> None)"


definition silent_model :: "content list \<Rightarrow> exn + candidate list" where
  "silent_model history = Inr []"

definition call :: "string \<Rightarrow> dict \<Rightarrow> function_call" where
  "call name args = \<lparr>fc_name = name, fc_args = Some args\<rparr>"

definition turn_of :: "function_call list \<Rightarrow> candidate" where
  "turn_of fcs =
     \<lparr>cand_content =
        \<lparr>role = ''model'',
         parts = map (\<lambda>fc. \<lparr>part_text = None, part_function_call = Some fc,
                             part_function_response = None\<rparr>) fcs\<rparr>\<rparr>"

text \<open>A click the model marks as sensitive, followed by a navigation.\<close>

definition guarded_click :: function_call where
  "guarded_click =
     call ''click_at'' [(''x'', VInt 500), (''y'', VInt 500),
                        (''safety_decision'', VDict [(''explanation'', VStr ''Submits a payment'')])]"

definition guarded_batch :: candidate where
  "guarded_batch =
     turn_of [call ''open_web_browser'' [], guarded_click,
              call ''navigate'' [(''url'', VStr ''example.com'')]]"



definition fresh_world :: "string list \<Rightarrow> world" where
  "fresh_world lines = \<lparr>browser = [], stdin = lines\<rparr>"




section \<open>Properties of the coordinate normalizer\<close>

subsection \<open>Rounding to a double\<close>

lemma bits_nonpos: "n \<le> 0 \<Longrightarrow> bits n = 0"
  by (simp add: bits.simps)

lemma bits_bounds: "0 < n \<Longrightarrow> 1 \<le> bits n \<and> 2 ^ nat (bits n - 1) \<le> n \<and> n < 2 ^ nat (bits n)"
proof (induction n rule: bits.induct)
  case (1 n)
  have b: "bits n = 1 + bits (n div 2)"
    using "1.prems" by (subst bits.simps) simp
  show ?case
  proof (cases "n div 2 = 0")
    case True
    then have "n = 1" using "1.prems" by presburger
    then show ?thesis using b by (simp add: bits_nonpos)
  next
    case False
    with "1.prems" have pos: "0 < n div 2" by presburger
    from "1.IH" [OF _ pos] "1.prems"
    have ih: "1 \<le> bits (n div 2)" "2 ^ nat (bits (n div 2) - 1) \<le> n div 2"
      "n div 2 < 2 ^ nat (bits (n div 2))" by auto
    have e1: "nat (bits n - 1) = Suc (nat (bits (n div 2) - 1))"
      using ih(1) b by simp
    have e2: "nat (bits n) = Suc (nat (bits (n div 2)))"
      using ih(1) b by simp
    have "2 * (n div 2) \<le> n" "n \<le> 2 * (n div 2) + 1" by presburger+
    with ih show ?thesis unfolding e1 e2 using b by simp
  qed
qed

lemma two_pow_powi: "two_pow k = 2 powi k"
  by (simp add: two_pow_def power_int_def field_simps)

lemma of_int_bits:
  assumes "0 < n"
  shows "(2::rat) powi (bits n - 1) \<le> of_int n" "(of_int n :: rat) < 2 powi (bits n)"
proof -
  from bits_bounds [OF assms] have b: "1 \<le> bits n" "2 ^ nat (bits n - 1) \<le> n" "n < 2 ^ nat (bits n)"
    by auto
  have "(of_int (2 ^ nat (bits n - 1)) :: rat) \<le> of_int n"
    using b(2) by (simp only: of_int_le_iff)
  then show "(2::rat) powi (bits n - 1) \<le> of_int n"
    using b(1) by (simp add: power_int_def)
  have "(of_int n :: rat) < of_int (2 ^ nat (bits n))"
    using b(3) by (simp only: of_int_less_iff)
  then show "(of_int n :: rat) < 2 powi (bits n)"
    using b(1) by (simp add: power_int_def)
qed

lemma flog2_bounds:
  assumes "q \<noteq> 0"
  shows "2 powi (flog2 q) \<le> \<bar>q\<bar>" "\<bar>q\<bar> < 2 powi (flog2 q + 1)"
proof -
  obtain a b where ab: "quotient_of \<bar>q\<bar> = (a, b)" by (cases "quotient_of \<bar>q\<bar>")
  have bpos: "0 < b" using ab by (rule quotient_of_denom_pos)
  have q: "\<bar>q\<bar> = of_int a / of_int b" using ab by (rule quotient_of_div)
  have "0 < \<bar>q\<bar>" using assms by simp
  then have apos: "0 < a" using q bpos by (simp add: zero_less_divide_iff)
  define k where "k = bits a - bits b"
  note A = of_int_bits [OF apos] and B = of_int_bits [OF bpos]
  have bp: "(0::rat) < of_int b" using bpos by simp
  have up: "\<bar>q\<bar> < 2 powi (k + 1)"
  proof -
    have "of_int a < (2::rat) powi (bits a)" by (rule A(2))
    also have "\<dots> = 2 powi (k + 1) * 2 powi (bits b - 1)"
      by (simp add: k_def power_int_add [symmetric])
    also have "\<dots> \<le> 2 powi (k + 1) * of_int b"
      using B(1) by (simp add: mult_left_mono)
    finally show ?thesis using bp by (simp add: q pos_divide_less_eq)
  qed
  have lo: "2 powi (k - 1) < \<bar>q\<bar>"
  proof -
    have "(2::rat) powi (k - 1) * of_int b < 2 powi (k - 1) * 2 powi (bits b)"
      using B(2) by (simp add: mult_strict_left_mono)
    also have "\<dots> = 2 powi (bits a - 1)"
      by (simp add: k_def power_int_add [symmetric])
    also have "\<dots> \<le> of_int a" by (rule A(1))
    finally show ?thesis using bp by (simp add: q pos_less_divide_eq)
  qed
  have f: "flog2 q = (if 2 powi k \<le> \<bar>q\<bar> then k else k - 1)"
    by (simp add: flog2_def ab k_def two_pow_powi Let_def)
  show "2 powi (flog2 q) \<le> \<bar>q\<bar>"
    using lo by (simp add: f)
  show "\<bar>q\<bar> < 2 powi (flog2 q + 1)"
    using up by (auto simp: f)
qed

lemma round_half_even_err: "\<bar>of_int (round_half_even q) - q\<bar> \<le> 1 / 2"
proof -
  have "of_int \<lfloor>q\<rfloor> \<le> q" "q < of_int \<lfloor>q\<rfloor> + 1" by linarith+
  then show ?thesis
    by (auto simp: round_half_even_def Let_def abs_le_iff)
qed

lemma two_powi_less_cancel: "(2::rat) powi a < 2 powi b \<Longrightarrow> a < b"
proof (rule ccontr)
  assume l: "(2::rat) powi a < 2 powi b" and "\<not> a < b"
  then have "b \<le> a" by simp
  then have "(2::rat) powi b \<le> 2 powi a" by (rule power_int_increasing) simp
  with l show False by simp
qed

lemma two_powi_add: "(2::rat) powi (a + b) = 2 powi a * 2 powi b"
  by (rule power_int_add) simp

lemma flog2_ge:
  assumes "2 powi k \<le> \<bar>q\<bar>"
  shows "k \<le> flog2 q"
proof -
  have q: "q \<noteq> 0"
  proof
    assume "q = 0"
    with assms have "(2::rat) powi k \<le> 0" by simp
    moreover have "(0::rat) < 2 powi k" by simp
    ultimately show False by linarith
  qed
  have "(2::rat) powi k < 2 powi (flog2 q + 1)"
    using assms flog2_bounds(2) [OF q] by linarith
  then have "k < flog2 q + 1"
    by (rule two_powi_less_cancel)
  then show ?thesis by simp
qed

lemma flog2_lt:
  assumes "q \<noteq> 0" "\<bar>q\<bar> < 2 powi k"
  shows "flog2 q < k"
proof -
  have "(2::rat) powi (flog2 q) < 2 powi k"
    using assms flog2_bounds(1) [OF assms(1)] by linarith
  then show ?thesis
    by (rule two_powi_less_cancel)
qed

lemma bits_le:
  assumes "n \<le> 2 ^ k"
  shows "bits n \<le> int k + 1"
proof (cases "0 < n")
  case False
  then show ?thesis by (simp add: bits_nonpos)
next
  case True
  from bits_bounds [OF True] have b: "1 \<le> bits n" "2 ^ nat (bits n - 1) \<le> n" by auto
  have "(2::int) ^ nat (bits n - 1) \<le> 2 ^ k" using b(2) assms by linarith
  then have "nat (bits n - 1) \<le> k" by simp
  then show ?thesis using b(1) by linarith
qed

lemma round_double_finite:
  assumes "q = 0 \<or> 2 powi (- 1022) \<le> \<bar>q\<bar>" and "\<bar>q\<bar> < 2 powi 1023"
  shows "\<exists>r. round_double q = Finite r \<and> \<bar>r - q\<bar> \<le> \<bar>q\<bar> / 2 ^ 53"
proof (cases "q = 0")
  case True
  then show ?thesis by (simp add: round_double_def)
next
  case False
  define e where "e = flog2 q"
  define m where "m = round_half_even (q / 2 powi (e - 52))"
  have lo: "- 1022 \<le> e" using assms(1) False flog2_ge [of "- 1022" q] by (simp add: e_def)
  have hi: "e < 1023" using flog2_lt [OF False assms(2)] by (simp add: e_def)
  have p: "max (flog2 q - 52) (- 1074) = e - 52" using lo by (simp add: e_def)
  have tp: "(0::rat) < 2 powi (e - 52)" by simp
  have err: "\<bar>of_int m - q / 2 powi (e - 52)\<bar> \<le> 1 / 2"
    unfolding m_def by (rule round_half_even_err)
  have qb: "\<bar>q\<bar> / 2 powi (e - 52) < 2 ^ 53"
  proof -
    have "\<bar>q\<bar> < 2 powi (e + 1)" using flog2_bounds(2) [OF False] by (simp add: e_def)
    also have "\<dots> = 2 powi (e - 52) * 2 powi 53"
      using two_powi_add [of "e - 52" 53] by (simp add: add.commute)
    finally show ?thesis using tp by (simp add: pos_divide_less_eq mult.commute)
  qed
  have "\<bar>q / 2 powi (e - 52)\<bar> = \<bar>q\<bar> / 2 powi (e - 52)"
    by (simp only: abs_divide abs_of_pos [OF tp])
  with qb have qa: "\<bar>q / 2 powi (e - 52)\<bar> < 2 ^ 53" by (simp only:)
  have "\<bar>(of_int m :: rat)\<bar> < 2 ^ 53 + 1 / 2"
    using err qa by linarith
  then have "(of_int \<bar>m\<bar> :: rat) < of_int (2 ^ 53) + 1 / 2" by simp
  then have "(of_int \<bar>m\<bar> :: rat) < of_int (2 ^ 53 + 1)" by simp
  then have "\<bar>m\<bar> < 2 ^ 53 + 1" by (simp only: of_int_less_iff)
  then have "\<bar>m\<bar> \<le> 2 ^ 53" by simp
  then have "bits \<bar>m\<bar> \<le> 54" using bits_le [of "\<bar>m\<bar>" 53] by simp
  then have no: "\<not> 1024 < bits \<bar>m\<bar> + (e - 52)" using hi by simp
  have r: "round_double q = Finite (of_int m * 2 powi (e - 52))"
    using False no by (simp add: round_double_def p two_pow_powi Let_def m_def)
  have "\<bar>of_int m * 2 powi (e - 52) - q\<bar> = \<bar>of_int m - q / 2 powi (e - 52)\<bar> * 2 powi (e - 52)"
  proof -
    have "of_int m * 2 powi (e - 52) - q = (of_int m - q / 2 powi (e - 52)) * 2 powi (e - 52)"
      using tp by (simp add: field_simps)
    then show ?thesis using tp by (simp add: abs_mult)
  qed
  also have "\<dots> \<le> 1 / 2 * 2 powi (e - 52)"
    using err tp by (simp add: mult_right_mono)
  also have "\<dots> = 2 powi e / 2 ^ 53"
  proof -
    have "(2::rat) powi (e - 52) = 2 powi e * 2 powi (- 52)"
      using two_powi_add [of e "- 52"] by simp
    then show ?thesis by (simp add: power_int_minus field_simps)
  qed
  also have "\<dots> \<le> \<bar>q\<bar> / 2 ^ 53"
    using flog2_bounds(1) [OF False] by (simp add: e_def divide_right_mono)
  finally show ?thesis using r by simp
qed

lemma round_double_bounded:
  assumes "q = 0 \<or> 1 / 1024 \<le> \<bar>q\<bar>" "\<bar>q\<bar> \<le> 2 ^ 60"
  shows "\<exists>r. round_double q = Finite r \<and> \<bar>r - q\<bar> \<le> \<bar>q\<bar> / 2 ^ 53 \<and> \<bar>r\<bar> \<le> 2 * \<bar>q\<bar>
           \<and> (0 \<le> q \<longrightarrow> 0 \<le> r) \<and> (q \<le> 0 \<longrightarrow> r \<le> 0)"
proof -
  have a: "q = 0 \<or> 2 powi (- 1022) \<le> \<bar>q\<bar>"
  proof (cases "q = 0")
    case False
    with assms have "1 / 1024 \<le> \<bar>q\<bar>" by simp
    moreover have "(2::rat) powi (- 1022) \<le> 2 powi (- 10)"
      by (rule power_int_increasing) simp_all
    moreover have "(2::rat) powi (- 10) = 1 / 1024" by (simp add: power_int_minus)
    ultimately show ?thesis by simp
  qed simp
  have "(2::rat) powi 60 < 2 powi 1023"
    by (rule power_int_strict_increasing) simp_all
  then have b: "\<bar>q\<bar> < 2 powi 1023" using assms(2) by simp
  from round_double_finite [OF a b] obtain r where
    r: "round_double q = Finite r" "\<bar>r - q\<bar> \<le> \<bar>q\<bar> / 2 ^ 53" by blast
  have "\<bar>q\<bar> / 2 ^ 53 \<le> \<bar>q\<bar>" by (simp add: field_simps)
  with r(2) have "\<bar>r\<bar> \<le> 2 * \<bar>q\<bar>" "0 \<le> q \<longrightarrow> 0 \<le> r" "q \<le> 0 \<longrightarrow> r \<le> 0"
    by linarith+
  with r show ?thesis by blast
qed

lemma floor_near_thousandth:
  assumes "0 < M" and close: "\<bar>P - of_int M / 1000\<bar> < 1 / 1000"
  shows "\<lfloor>P :: rat\<rfloor> = M div 1000 \<or> (1000 dvd M \<and> \<lfloor>P\<rfloor> = M div 1000 - 1)"
proof -
  define k where "k = M div 1000"
  define m where "m = M mod 1000"
  have M: "M = 1000 * k + m" and m: "0 \<le> m" "m \<le> 999"
    by (simp_all add: k_def m_def)
  have "(of_int M :: rat) = of_int (1000 * k + m)" by (simp only: M [symmetric])
  then have X: "(of_int M :: rat) / 1000 = of_int k + of_int m / 1000" by simp
  define f :: rat where "f = of_int m / 1000"
  have f: "0 \<le> f" "f \<le> 999 / 1000" using m by (simp_all add: f_def)
  have pb: "P < of_int k + f + 1 / 1000" "of_int k + f - 1 / 1000 < P"
    using close unfolding X f_def [symmetric] by (simp_all only: abs_less_iff) linarith+
  have up: "\<lfloor>P\<rfloor> \<le> k"
  proof -
    have "P < of_int k + 1" using pb(1) f(2) by linarith
    then have "P < of_int (k + 1)" by simp
    then have "\<lfloor>P\<rfloor> < k + 1" by (simp only: floor_less_iff)
    then show ?thesis by simp
  qed
  have lo: "k - 1 \<le> \<lfloor>P\<rfloor>"
  proof -
    have "of_int k - 1 \<le> P" using pb(2) f(1) by linarith
    then have "of_int (k - 1) \<le> P" by simp
    then show ?thesis by (simp only: le_floor_iff)
  qed
  show ?thesis
  proof (cases "1000 dvd M")
    case True
    with up lo show ?thesis unfolding k_def by linarith
  next
    case False
    then have "m \<noteq> 0" by (simp add: m_def dvd_eq_mod_eq_0)
    with m have "1 \<le> m" by simp
    then have "(1::rat) \<le> of_int m" by simp
    then have "1 / 1000 \<le> f" by (simp add: f_def)
    then have "of_int k \<le> P" using pb(2) by linarith
    then have "k \<le> \<lfloor>P\<rfloor>" by (simp only: le_floor_iff)
    with up show ?thesis unfolding k_def by simp
  qed
qed

lemma denormalize_bounded:
  assumes "\<bar>x\<bar> < 2 ^ 25" "\<bar>d\<bar> < 2 ^ 25"
  shows "\<exists>r. denormalize_x x d = Inr r
           \<and> (r = sgn (x * d) * (\<bar>x * d\<bar> div 1000)
                \<or> (x * d \<noteq> 0 \<and> 1000 dvd x * d \<and> r = sgn (x * d) * (\<bar>x * d\<bar> div 1000 - 1)))"
proof -
  define A :: rat where "A = of_int x / 1000"
  define D :: rat where "D = of_int d"
  define u :: rat where "u = 1 / 2 ^ 53"
  define X :: rat where "X = \<bar>A\<bar> * \<bar>D\<bar>"
  define N where "N = x * d"
  have xr: "\<bar>of_int x :: rat\<bar> \<le> 2 ^ 25"
  proof -
    have "(of_int \<bar>x\<bar> :: rat) \<le> of_int (2 ^ 25)" using assms(1) by simp
    then show ?thesis by simp
  qed
  have dr: "\<bar>D\<bar> \<le> 2 ^ 25"
  proof -
    have "(of_int \<bar>d\<bar> :: rat) \<le> of_int (2 ^ 25)" using assms(2) by simp
    then show ?thesis by (simp add: D_def)
  qed
  have A0: "\<bar>A\<bar> \<le> 2 ^ 25 / 1000" using xr by (simp add: A_def)
  have Alow: "A = 0 \<or> 1 / 1000 \<le> \<bar>A\<bar>"
  proof (cases "x = 0")
    case False
    then have "1 \<le> \<bar>x\<bar>" by simp
    then have "(of_int 1 :: rat) \<le> of_int \<bar>x\<bar>" by (simp only: of_int_le_iff)
    then show ?thesis by (simp add: A_def)
  qed (simp add: A_def)
  have Dlow: "D = 0 \<or> 1 \<le> \<bar>D\<bar>"
  proof (cases "d = 0")
    case False
    then have "1 \<le> \<bar>d\<bar>" by simp
    then have "(of_int 1 :: rat) \<le> of_int \<bar>d\<bar>" by (simp only: of_int_le_iff)
    then show ?thesis by (simp add: D_def)
  qed (simp add: D_def)
  have "A = 0 \<or> 1 / 1024 \<le> \<bar>A\<bar>" using Alow by auto
  moreover have "\<bar>A\<bar> \<le> 2 ^ 60" using A0 by simp
  ultimately obtain a where
    a: "round_double A = Finite a" "\<bar>a - A\<bar> \<le> \<bar>A\<bar> * u" "\<bar>a\<bar> \<le> 2 * \<bar>A\<bar>"
    using round_double_bounded [of A] by (auto simp: u_def)
  have "D = 0 \<or> 1 / 1024 \<le> \<bar>D\<bar>" using Dlow by auto
  moreover have "\<bar>D\<bar> \<le> 2 ^ 60" using dr by simp
  ultimately obtain w where
    w: "round_double D = Finite w" "\<bar>w - D\<bar> \<le> \<bar>D\<bar> * u" "\<bar>w\<bar> \<le> 2 * \<bar>D\<bar>"
    using round_double_bounded [of D] by (auto simp: u_def)
  have upos: "0 \<le> u" by (simp add: u_def)
  have X0: "0 \<le> X" by (simp add: X_def)
  have Xhi: "X \<le> 2 ^ 50 / 1000"
  proof -
    have "\<bar>A\<bar> * \<bar>D\<bar> \<le> (2 ^ 25 / 1000) * 2 ^ 25"
      using A0 dr by (intro mult_mono) simp_all
    then show ?thesis by (simp add: X_def)
  qed
  have XAD: "X = \<bar>A * D\<bar>" by (simp add: X_def abs_mult)
  have diff: "\<bar>a * w - A * D\<bar> \<le> 3 * (X * u)"
  proof -
    have "a * w - A * D = (a - A) * w + A * (w - D)" by (simp add: algebra_simps)
    then have "\<bar>a * w - A * D\<bar> \<le> \<bar>a - A\<bar> * \<bar>w\<bar> + \<bar>A\<bar> * \<bar>w - D\<bar>"
      by (metis abs_mult abs_triangle_ineq)
    also have "\<dots> \<le> (\<bar>A\<bar> * u) * (2 * \<bar>D\<bar>) + \<bar>A\<bar> * (\<bar>D\<bar> * u)"
    proof -
      have "\<bar>a - A\<bar> * \<bar>w\<bar> \<le> (\<bar>A\<bar> * u) * (2 * \<bar>D\<bar>)"
        using a(2) w(3) upos by (intro mult_mono) simp_all
      moreover have "\<bar>A\<bar> * \<bar>w - D\<bar> \<le> \<bar>A\<bar> * (\<bar>D\<bar> * u)"
        using w(2) by (intro mult_mono) simp_all
      ultimately show ?thesis by linarith
    qed
    also have "\<dots> = 3 * (X * u)" by (simp add: X_def algebra_simps)
    finally show ?thesis .
  qed
  have Xu: "X * u \<le> 1 / 8000"
  proof -
    have "X * u \<le> (2 ^ 50 / 1000) * u"
      using Xhi upos by (intro mult_right_mono) simp_all
    then show ?thesis by (simp add: u_def)
  qed
  have Xu0: "0 \<le> X * u" using X0 upos by simp
  have awle: "\<bar>a * w\<bar> \<le> 4 * X"
  proof -
    have "\<bar>a\<bar> * \<bar>w\<bar> \<le> (2 * \<bar>A\<bar>) * (2 * \<bar>D\<bar>)"
      using a(3) w(3) by (intro mult_mono) simp_all
    then show ?thesis by (simp add: X_def abs_mult algebra_simps)
  qed
  have awlow: "a * w = 0 \<or> 1 / 1024 \<le> \<bar>a * w\<bar>"
  proof (cases "A = 0 \<or> D = 0")
    case True
    then have "a = 0 \<or> w = 0" using a(2) w(2) by auto
    then show ?thesis by auto
  next
    case False
    with Alow Dlow have lo: "1 / 1000 \<le> \<bar>A\<bar>" "1 \<le> \<bar>D\<bar>" by auto
    have "1 / 1000 \<le> X"
      using mult_mono [OF lo(1) lo(2)] by (simp add: X_def)
    moreover have "X * u \<le> X * (1 / 1024)"
      using X0 by (intro mult_left_mono) (simp_all add: u_def)
    moreover have "X - \<bar>a * w\<bar> \<le> 3 * (X * u)"
      using diff unfolding XAD by linarith
    ultimately have "1 / 1024 \<le> \<bar>a * w\<bar>" by linarith
    then show ?thesis ..
  qed
  have awhi: "\<bar>a * w\<bar> \<le> 2 ^ 60"
  proof -
    have "4 * X \<le> 4 * (2 ^ 50 / 1000)" using Xhi by simp
    also have "\<dots> \<le> 2 ^ 60" by simp
    finally show ?thesis using awle by simp
  qed
  from round_double_bounded [OF awlow awhi] obtain p where
    p: "round_double (a * w) = Finite p" "\<bar>p - a * w\<bar> \<le> \<bar>a * w\<bar> * u"
    by (auto simp: u_def)
  have "\<bar>a * w\<bar> * u \<le> 4 * X * u"
    using awle upos by (intro mult_right_mono) simp_all
  with p(2) diff have "\<bar>p - A * D\<bar> \<le> 7 * (X * u)" by linarith
  with Xu have close: "\<bar>p - A * D\<bar> < 1 / 1000" by linarith
  have AD: "A * D = of_int N / 1000" by (simp add: A_def D_def N_def)
  have res: "denormalize_x x d = Inr (trunc p)"
    using a(1) w(1) p(1)
    by (simp add: denormalize_x_def int_truediv_def float_of_int_def float_mul_def
         int_of_float_def bind_exn_def A_def D_def)
  consider (zero) "N = 0" | (pos) "0 < N" | (neg) "N < 0" by linarith
  then have "trunc p = sgn N * (\<bar>N\<bar> div 1000)
               \<or> (N \<noteq> 0 \<and> 1000 dvd N \<and> trunc p = sgn N * (\<bar>N\<bar> div 1000 - 1))"
  proof cases
    case zero
    then have X: "X = 0" using AD by (simp add: XAD)
    from awle X have "a * w = 0" by simp
    with p(2) have "p = 0" by simp
    then show ?thesis using zero by (simp add: trunc_def)
  next
    case pos
    then have "(1::rat) \<le> of_int N" by simp
    then have "1 / 1000 \<le> A * D" by (simp add: AD)
    with close have "0 \<le> p" by linarith
    then have t: "trunc p = \<lfloor>p\<rfloor>" by (simp add: trunc_def)
    from floor_near_thousandth [OF pos close [unfolded AD]] pos show ?thesis
      by (auto simp: t)
  next
    case neg
    then have N': "0 < - N" by simp
    from neg have "of_int N \<le> (- 1 :: rat)"
      by (metis of_int_le_iff of_int_minus of_int_1 zle_diff1_eq diff_minus_eq_add add.commute
            add.right_neutral uminus_add_conv_diff zle_add1_eq_le less_le_not_le int_one_le_iff_zero_less
            neg_le_iff_le)
    then have "A * D \<le> - (1 / 1000)" by (simp add: AD)
    with close have pn: "p < 0" by linarith
    then have t: "trunc p = - \<lfloor>- p\<rfloor>" by (simp add: trunc_def ceiling_def)
    have "\<bar>- p - of_int (- N) / 1000\<bar> < 1 / 1000"
      using close unfolding AD by (simp add: abs_minus_commute [of p] field_simps) 
    from floor_near_thousandth [OF N' this] neg show ?thesis
      by (auto simp: t)
  qed
  with res show ?thesis by (simp add: N_def)
qed

text \<open>The overflow test of \<open>round_double\<close> is the comparison with \<open>2^1024\<close>.\<close>

lemma overflow_test:
  assumes "m \<noteq> 0"
  shows "(1024 < bits \<bar>m\<bar> + p) \<longleftrightarrow> (2 powi 1024 \<le> \<bar>of_int m * 2 powi p :: rat\<bar>)"
proof -
  have pos: "0 < \<bar>m\<bar>" using assms by simp
  note B = of_int_bits [OF pos]
  have a: "\<bar>of_int m * 2 powi p :: rat\<bar> = of_int \<bar>m\<bar> * 2 powi p"
    by (simp add: abs_mult)
  have tp: "(0::rat) < 2 powi p" by simp
  show ?thesis
  proof
    assume "1024 < bits \<bar>m\<bar> + p"
    then have "1024 \<le> (bits \<bar>m\<bar> - 1) + p" by simp
    then have "(2::rat) powi 1024 \<le> 2 powi ((bits \<bar>m\<bar> - 1) + p)"
      by (intro power_int_increasing) simp_all
    also have "\<dots> = 2 powi (bits \<bar>m\<bar> - 1) * 2 powi p"
      by (rule two_powi_add)
    also have "\<dots> \<le> of_int \<bar>m\<bar> * 2 powi p"
      using B(1) tp by (intro mult_right_mono) simp_all
    finally show "2 powi 1024 \<le> \<bar>of_int m * 2 powi p :: rat\<bar>"
      by (simp only: a)
  next
    assume h: "2 powi 1024 \<le> \<bar>of_int m * 2 powi p :: rat\<bar>"
    show "1024 < bits \<bar>m\<bar> + p"
    proof (rule ccontr)
      assume "\<not> 1024 < bits \<bar>m\<bar> + p"
      then have le: "bits \<bar>m\<bar> + p \<le> 1024" by simp
      have "of_int \<bar>m\<bar> * 2 powi p < (2::rat) powi (bits \<bar>m\<bar>) * 2 powi p"
        using B(2) tp by (intro mult_strict_right_mono) simp_all
      also have "\<dots> = 2 powi (bits \<bar>m\<bar> + p)"
        by (rule two_powi_add [symmetric])
      also have "\<dots> \<le> 2 powi 1024"
        using le by (intro power_int_increasing) simp_all
      finally show False using h by (simp only: a)
    qed
  qed
qed

text \<open>
  Values every Python session shows: \<open>1 / 10\<close> is the double \<open>0.1\<close>;
  \<open>290 / 1000 * 100\<close> is \<open>28.999999999999996\<close>, so its \<open>int\<close> is 28; halves are exact.
\<close>

lemma one_tenth: "int_truediv 1 10 = Inr (3602879701896397 / 36028797018963968)"
  by code_simp

lemma twenty_nine_hundredths: "denormalize_x 290 100 = Inr 28"
  by code_simp

lemma half_is_exact: "denormalize_x 500 1440 = Inr 720 \<and> denormalize_y 500 900 = Inr 450"
  by code_simp

subsection \<open>Truncation, not rounding\<close>

text \<open>
  C5, as the spec states it, fails: the normalizer does not round to the nearest integer.
  At \<open>x = 2\<close> on a viewport 1440 wide the product is 2.88; \<open>int\<close> truncates it to 2,
  where rounding gives 3.
\<close>

theorem denormalize_not_rounded:
  "denormalize_x 2 1440 = Inr 2 \<and> round ((2::rat) / 1000 * 1440) = 3"
  by code_simp

text \<open>
  C5 (amended): for every integer coordinate \<open>x\<close> (respectively \<open>y\<close>) and viewport
  dimension \<open>d\<close>, \<open>denormalize_x\<close> and \<open>denormalize_y\<close> compute the same thing, and
  what they return is \<open>int(x / 1000 * d)\<close>: the double-precision product, truncated
  toward zero (its floor when it is not negative, its ceiling when it is). For
  coordinates and dimensions below \<open>2^25\<close> in absolute value they always return, and
  the result is the exact product \<open>x * d / 1000\<close> truncated toward zero; only when the
  exact product is a whole number other than zero may the double-precision product fall
  just short of it, and the result be one nearer to zero.
\<close>

theorem denormalize_truncates:
  "denormalize_y x d = denormalize_x x d
   \<and> (\<forall>r. denormalize_x x d = Inr r \<longrightarrow>
         (\<exists>q w p. int_truediv x 1000 = Inr q \<and> float_of_int d = Inr w \<and> float_mul q w = Finite p
            \<and> r = (if 0 \<le> p then \<lfloor>p\<rfloor> else \<lceil>p\<rceil>)))
   \<and> (\<bar>x\<bar> < 2 ^ 25 \<and> \<bar>d\<bar> < 2 ^ 25 \<longrightarrow>
         (\<exists>r. denormalize_x x d = Inr r
            \<and> (r = sgn (x * d) * (\<bar>x * d\<bar> div 1000)
                 \<or> (x * d \<noteq> 0 \<and> 1000 dvd x * d \<and> r = sgn (x * d) * (\<bar>x * d\<bar> div 1000 - 1)))))"
proof -
  have same: "denormalize_y x d = denormalize_x x d"
    by (simp add: denormalize_x_def denormalize_y_def)
  have shape: "\<forall>r. denormalize_x x d = Inr r \<longrightarrow>
         (\<exists>q w p. int_truediv x 1000 = Inr q \<and> float_of_int d = Inr w \<and> float_mul q w = Finite p
            \<and> r = (if 0 \<le> p then \<lfloor>p\<rfloor> else \<lceil>p\<rceil>))"
    by (auto simp: denormalize_x_def bind_exn_def int_of_float_def trunc_def
             split: sum.splits pyfloat.splits)
  from same shape denormalize_bounded [of x d] show ?thesis by blast
qed

text \<open>
  On the reference viewport: \<open>x = 175\<close> gives 251, one below the exact product 252;
  \<open>y = -2\<close> gives -1, the product -1.8 truncated toward zero, where its floor is -2.
\<close>

theorem denormalize_truncates_witness:
  "denormalize_x 175 SCREEN_WIDTH = Inr 251
   \<and> sgn ((175::int) * 1440) * (\<bar>175 * 1440\<bar> div 1000 - 1) = 251
   \<and> denormalize_y (- 2) SCREEN_HEIGHT = Inr (- 1)
   \<and> sgn ((- 2 :: int) * 900) * (\<bar>- 2 * 900\<bar> div 1000) = - 1
   \<and> \<lfloor>(- 2 :: rat) / 1000 * 900\<rfloor> = - 2"
proof -
  have e: "denormalize_x 175 SCREEN_WIDTH = Inr 251" "denormalize_y (- 2) SCREEN_HEIGHT = Inr (- 1)"
    by code_simp+
  have f: "\<lfloor>(- 2 :: rat) / 1000 * 900\<rfloor> = - 2"
    by code_simp
  have b: "\<bar>175 :: int\<bar> < 2 ^ 25 \<and> \<bar>1440 :: int\<bar> < 2 ^ 25" "\<bar>- 2 :: int\<bar> < 2 ^ 25 \<and> \<bar>900 :: int\<bar> < 2 ^ 25"
    by simp_all
  from denormalize_truncates [of 175 1440] b(1)
  have "\<exists>r. denormalize_x 175 1440 = Inr r
            \<and> (r = sgn (175 * 1440) * (\<bar>175 * 1440\<bar> div 1000)
                 \<or> (175 * 1440 \<noteq> (0::int) \<and> 1000 dvd (175::int) * 1440
                     \<and> r = sgn (175 * 1440) * (\<bar>175 * 1440\<bar> div 1000 - 1)))"
    by blast
  moreover from denormalize_truncates [of "- 2" 900] b(2)
  have "denormalize_y (- 2) 900 = denormalize_x (- 2) 900" by blast
  ultimately show ?thesis using e f by (simp add: SCREEN_WIDTH_def SCREEN_HEIGHT_def)
qed

section \<open>Properties of the action executor\<close>

lemma and_then_None [simp]: "and_then (None, pg) f = f pg"
  by (simp add: and_then_def)

lemma and_then_Some [simp]: "and_then (Some e, pg) f = (Some e, pg)"
  by (simp add: and_then_def)

lemma settle_eq: "settle env pg = (None, pg @ [WaitForLoadState ''networkidle'' 5000, Sleep (4 / 5)])"
  by (simp add: settle_def driver_def split: option.splits)

lemma try_action_ok:
  "perform env f a sw sh pg = (None, pg1) \<Longrightarrow>
   try_action env f a sw sh pg = ([], pg1 @ [WaitForLoadState ''networkidle'' 5000, Sleep (4 / 5)])"
  by (simp add: try_action_def settle_eq)

lemma try_action_raised:
  "perform env f a sw sh pg = (Some e, pg1) \<Longrightarrow>
   try_action env f a sw sh pg = ([(''error'', VStr (str_exn e))], pg1)"
  by (simp add: try_action_def)

subsection \<open>The settle step\<close>

text \<open>
  C8, as the spec states it, fails: an action whose input events fail is not followed by
  the settle step. The settle step stands inside the \<open>try\<close>, after the action; when the
  click raises, control goes to the handler and the page sees the click and nothing else.
\<close>

theorem failed_click_skips_settle:
  "try_action (test_env click_raises silent_model) ''click_at''
     [(''x'', VInt 500), (''y'', VInt 500)] SCREEN_WIDTH SCREEN_HEIGHT []
   = ([(''error'', VStr ''Target closed'')], [Click 720 450])"
  by code_simp

text \<open>
  C8 (amended): for every executed action whose argument checks and input events
  complete without raising, the executor performs the settle step (the wait for network
  quiescence with its 5000 ms timeout, a timeout being swallowed, then the pause of 0.8 s)
  before producing that action's result, which is then empty; an action that raises
  produces its error result at once, without the settle step.
\<close>

theorem settle_after_completed_action:
  "(perform env f a sw sh pg = (None, pg1) \<longrightarrow>
      try_action env f a sw sh pg = ([], pg1 @ [WaitForLoadState ''networkidle'' 5000, Sleep (4 / 5)]))
   \<and> (perform env f a sw sh pg = (Some e, pg1) \<longrightarrow>
      try_action env f a sw sh pg = ([(''error'', VStr (str_exn e))], pg1))"
  by (simp add: try_action_ok try_action_raised)

text \<open>A click that succeeds on a page whose wait for quiescence times out, and a click
  that raises.\<close>

theorem settle_after_completed_action_witness:
  "perform (test_env idle_times_out silent_model) ''click_at''
      [(''x'', VInt 500), (''y'', VInt 500)] SCREEN_WIDTH SCREEN_HEIGHT [] = (None, [Click 720 450])
   \<and> try_action (test_env idle_times_out silent_model) ''click_at''
      [(''x'', VInt 500), (''y'', VInt 500)] SCREEN_WIDTH SCREEN_HEIGHT []
     = ([], [Click 720 450, WaitForLoadState ''networkidle'' 5000, Sleep (4 / 5)])
   \<and> perform (test_env click_raises silent_model) ''click_at''
      [(''x'', VInt 500), (''y'', VInt 500)] SCREEN_WIDTH SCREEN_HEIGHT []
     = (Some (DriverError ''Target closed''), [Click 720 450])
   \<and> try_action (test_env click_raises silent_model) ''click_at''
      [(''x'', VInt 500), (''y'', VInt 500)] SCREEN_WIDTH SCREEN_HEIGHT []
     = ([(''error'', VStr (str_exn (DriverError ''Target closed'')))], [Click 720 450])"
proof -
  have h: "perform (test_env idle_times_out silent_model) ''click_at''
      [(''x'', VInt 500), (''y'', VInt 500)] SCREEN_WIDTH SCREEN_HEIGHT [] = (None, [Click 720 450])"
    by code_simp
  have g: "perform (test_env click_raises silent_model) ''click_at''
      [(''x'', VInt 500), (''y'', VInt 500)] SCREEN_WIDTH SCREEN_HEIGHT []
     = (Some (DriverError ''Target closed''), [Click 720 450])"
    by code_simp
  show ?thesis
    using h g
      settle_after_completed_action
        [of "test_env idle_times_out silent_model" "''click_at''"
            "[(''x'', VInt 500), (''y'', VInt 500)]" SCREEN_WIDTH SCREEN_HEIGHT "[]" "[Click 720 450]"]
      settle_after_completed_action
        [of "test_env click_raises silent_model" "''click_at''"
            "[(''x'', VInt 500), (''y'', VInt 500)]" SCREEN_WIDTH SCREEN_HEIGHT "[]" "[Click 720 450]"
            "DriverError ''Target closed''"]
    by simp
qed

subsection \<open>Navigation\<close>

text \<open>
  C6: for every Navigate request, an empty url gives a failure and no navigation; a
  non-empty url without a scheme is executed with \<open>https://\<close> prepended; a url that
  already has a scheme is executed unchanged. The code departs from the last part:
  \<open>ensure_url_scheme\<close>, whose docstring says it adds \<open>https://\<close> when the scheme is
  missing, looks for the two prefixes \<open>http://\<close> and \<open>https://\<close> only, so an address
  with any other scheme is prefixed as well.
\<close>

theorem other_scheme_prefixed:
  "has_scheme ''ftp://example.com'' \<and>
   navigate (test_env never_raises silent_model) [(''url'', VStr ''ftp://example.com'')] []
     = (None, [Goto ''https://ftp://example.com'' ''domcontentloaded''])"
  by code_simp

text \<open>
  What navigation does, case by case, with \<open>url\<close> the string of the \<open>url\<close> argument
  (empty when the argument is missing): if \<open>url\<close> is empty the result is the error
  \<open>Missing 'url' argument for navigate\<close> and the page sees no call at all; if it is
  not empty and starts with neither \<open>http://\<close> nor \<open>https://\<close> the navigation goes to
  \<open>https://\<close> followed by \<open>url\<close>; if it starts with \<open>http://\<close> or \<open>https://\<close> the
  navigation goes to \<open>url\<close> unchanged.
\<close>

theorem navigate_url_cases:
  fixes env args
  defines "url \<equiv> py_str env (dict_get args ''url'' (VStr []))"
  shows "(url = [] \<longrightarrow>
           try_action env ''navigate'' args sw sh pg =
             ([(''error'', VStr ''Missing 'url' argument for navigate'')], pg))
       \<and> (url \<noteq> [] \<and> \<not> startswith url ''http://'' \<and> \<not> startswith url ''https://'' \<longrightarrow>
           perform env ''navigate'' args sw sh pg =
             driver env (Goto (''https://'' @ url) ''domcontentloaded'') pg)
       \<and> (startswith url ''http://'' \<or> startswith url ''https://'' \<longrightarrow>
           perform env ''navigate'' args sw sh pg = driver env (Goto url ''domcontentloaded'') pg)"
proof -
  have n: "startswith u ''http://'' \<or> startswith u ''https://'' \<Longrightarrow> u \<noteq> []" for u
    by (auto simp: startswith_def)
  have a: "url = [] \<Longrightarrow> navigate env args pg = (Some (ValueError ''Missing 'url' argument for navigate''), pg)"
    unfolding url_def by (simp add: navigate_def ensure_url_scheme_def startswith_def)
  have b: "url \<noteq> [] \<Longrightarrow> \<not> startswith url ''http://'' \<Longrightarrow> \<not> startswith url ''https://'' \<Longrightarrow>
           navigate env args pg = driver env (Goto (''https://'' @ url) ''domcontentloaded'') pg"
    unfolding url_def by (simp add: navigate_def ensure_url_scheme_def)
  have c: "startswith url ''http://'' \<or> startswith url ''https://'' \<Longrightarrow>
           navigate env args pg = driver env (Goto url ''domcontentloaded'') pg"
    using n [of url] unfolding url_def by (auto simp: navigate_def ensure_url_scheme_def Let_def)
  have p: "perform env ''navigate'' args sw sh pg = navigate env args pg"
    by (simp add: perform_def)
  show ?thesis
    using a b c by (auto simp: p try_action_def)
qed

text \<open>The three cases at \<open>example.com\<close>, at \<open>http://example.com\<close> and at a request
  without a \<open>url\<close>.\<close>

theorem navigate_url_cases_witness:
  "perform (test_env never_raises silent_model) ''navigate'' [(''url'', VStr ''example.com'')]
      SCREEN_WIDTH SCREEN_HEIGHT []
     = (None, [Goto ''https://example.com'' ''domcontentloaded''])
   \<and> perform (test_env never_raises silent_model) ''navigate'' [(''url'', VStr ''http://example.com'')]
      SCREEN_WIDTH SCREEN_HEIGHT []
     = (None, [Goto ''http://example.com'' ''domcontentloaded''])
   \<and> try_action (test_env never_raises silent_model) ''navigate'' [] SCREEN_WIDTH SCREEN_HEIGHT []
     = ([(''error'', VStr ''Missing 'url' argument for navigate'')], [])"
proof -
  let ?env = "test_env never_raises silent_model"
  have s: "py_str ?env (dict_get [(''url'', VStr ''example.com'')] ''url'' (VStr [])) = ''example.com''"
    "py_str ?env (dict_get [(''url'', VStr ''http://example.com'')] ''url'' (VStr [])) = ''http://example.com''"
    "py_str ?env (dict_get [] ''url'' (VStr [])) = []"
    by (simp_all add: py_str_def dict_get_def)
  have d: "driver ?env ev [] = (None, [ev])" for ev
    by (simp add: driver_def test_env_def never_raises_def)
  show ?thesis
    using navigate_url_cases [of ?env "[(''url'', VStr ''example.com'')]" SCREEN_WIDTH SCREEN_HEIGHT "[]"]
      navigate_url_cases [of ?env "[(''url'', VStr ''http://example.com'')]" SCREEN_WIDTH SCREEN_HEIGHT "[]"]
      navigate_url_cases [of ?env "[]" SCREEN_WIDTH SCREEN_HEIGHT "[]"]
    by (simp add: s d startswith_def)
qed

subsection \<open>Typing nothing\<close>

text \<open>
  C10: for every TypeTextAt request with valid coordinates whose \<open>text\<close> argument is the
  empty string, the first driver call is the click, no call types characters, and when
  no call raises the calls are exactly: the click, then select-all and delete when
  \<open>clear_before_typing\<close> is true, then Enter when \<open>press_enter\<close> is true (both flags
  default to true).
\<close>

theorem type_text_at_empty_text:
  assumes "pixel_coords env args sw sh = Inr (ax, ay)"
      and "map_of args ''text'' = Some (VStr [])"
      and "type_text_at env args sw sh pg = (r, pg')"
  shows "\<exists>evs. pg' = pg @ evs \<and> evs \<noteq> [] \<and> hd evs = Click ax ay
           \<and> (\<forall>t d. TypeText t d \<notin> set evs)
           \<and> (r = None \<longrightarrow> evs = type_text_events
                 (py_bool (dict_get args ''clear_before_typing'' (VBool True)))
                 (py_bool (dict_get args ''press_enter'' (VBool True))) ax ay)"
proof -
  have t: "py_str env (dict_get args ''text'' (VStr [])) = []"
    using assms(2) by (simp add: dict_get_def py_str_def)
  show ?thesis
    using assms(1,3) t
    by (auto simp: type_text_at_def Let_def driver_def and_then_def type_text_events_def
             split: option.splits if_splits)
qed

theorem type_text_at_empty_text_witness:
  "pixel_coords (test_env never_raises silent_model)
     [(''x'', VInt 500), (''y'', VInt 500), (''text'', VStr []), (''press_enter'', VBool False)]
     SCREEN_WIDTH SCREEN_HEIGHT = Inr (720, 450)
   \<and> type_text_at (test_env never_raises silent_model)
     [(''x'', VInt 500), (''y'', VInt 500), (''text'', VStr []), (''press_enter'', VBool False)]
     SCREEN_WIDTH SCREEN_HEIGHT []
     = (None, [Click 720 450, Press ''Meta+A'', Press ''Backspace''])
   \<and> type_text_events True False 720 450 = [Click 720 450, Press ''Meta+A'', Press ''Backspace'']"
proof -
  let ?env = "test_env never_raises silent_model"
  let ?args = "[(''x'', VInt 500), (''y'', VInt 500), (''text'', VStr []), (''press_enter'', VBool False)]"
  have c: "pixel_coords ?env ?args SCREEN_WIDTH SCREEN_HEIGHT = Inr (720, 450)"
    by code_simp
  have t: "map_of ?args ''text'' = Some (VStr [])"
    by simp
  have r: "type_text_at ?env ?args SCREEN_WIDTH SCREEN_HEIGHT []
     = (None, [Click 720 450, Press ''Meta+A'', Press ''Backspace''])"
    by code_simp
  have e: "type_text_events True False 720 450 = [Click 720 450, Press ''Meta+A'', Press ''Backspace'']"
    by (simp add: type_text_events_def)
  from type_text_at_empty_text [OF c t r]
  have "\<exists>evs. [Click 720 450, Press ''Meta+A'', Press ''Backspace''] = [] @ evs \<and> evs \<noteq> []
          \<and> hd evs = Click 720 450 \<and> (\<forall>t d. TypeText t d \<notin> set evs)"
    by blast
  with c r e show ?thesis by simp
qed

subsection \<open>The loop over the calls of a turn\<close>

lemma later_Inr: "later x = Inr v \<longleftrightarrow> (\<exists>v0. x = Inr v0 \<and> v = map_option Suc v0)"
  by (auto simp: later_def split: sum.splits option.splits)

lemma later_Inl: "later x = Inl e \<longleftrightarrow> x = Inl e"
  by (auto simp: later_def split: sum.splits option.splits)

text \<open>What one call of the batch does, by the three ways through the gate.\<close>

lemma execute_calls_plain:
  assumes "\<forall>sd. dict_get (call_args fc) ''safety_decision'' VNone \<noteq> VDict sd"
      and "try_action env (fc_name fc) (call_args fc) sw sh (browser w) = (r, pg)"
  shows "execute_calls env sw sh (fc # fcs) acc w
         = execute_calls env sw sh fcs (acc @ [(fc_name fc, r, [])]) (w\<lparr>browser := pg\<rparr>)"
  using assms by (auto simp: Let_def split: pyval.splits)

lemma execute_calls_approved:
  assumes "dict_get (call_args fc) ''safety_decision'' VNone = VDict sd"
      and "get_safety_confirmation env sd (stdin w) = Inr (d, rest)" "d \<noteq> ''TERMINATE''"
      and "try_action env (fc_name fc) (call_args fc) sw sh (browser w) = (r, pg)"
  shows "execute_calls env sw sh (fc # fcs) acc w
         = execute_calls env sw sh fcs
             (acc @ [(fc_name fc, r, [(''safety_acknowledgement'', VStr ''true'')])])
             (w\<lparr>browser := pg, stdin := rest\<rparr>)"
  using assms by (simp add: Let_def)

lemma execute_calls_rejected:
  assumes "dict_get (call_args fc) ''safety_decision'' VNone = VDict sd"
      and "get_safety_confirmation env sd (stdin w) = Inr (''TERMINATE'', rest)"
  shows "execute_calls env sw sh (fc # fcs) acc w
         = Inr (acc @ [(fc_name fc, [(''terminated_by_user'', VBool True)],
                        [(''safety_acknowledgement'', VStr ''false'')])],
                True, w\<lparr>stdin := rest\<rparr>)"
  using assms by (simp add: Let_def)

lemma first_rejection_plain:
  assumes "\<forall>sd. dict_get (call_args fc) ''safety_decision'' VNone \<noteq> VDict sd"
  shows "first_rejection env (fc # fcs) lines = later (first_rejection env fcs lines)"
  using assms by (auto split: pyval.splits)

lemma gate_cases:
  obtains (plain) "\<forall>sd. dict_get (call_args fc) ''safety_decision'' VNone \<noteq> VDict sd"
    | (eof) sd e where "dict_get (call_args fc) ''safety_decision'' VNone = VDict sd"
        "get_safety_confirmation env sd lines = Inl e"
    | (rejected) sd rest where "dict_get (call_args fc) ''safety_decision'' VNone = VDict sd"
        "get_safety_confirmation env sd lines = Inr (''TERMINATE'', rest)"
    | (approved) sd d rest where "dict_get (call_args fc) ''safety_decision'' VNone = VDict sd"
        "get_safety_confirmation env sd lines = Inr (d, rest)" "d \<noteq> ''TERMINATE''"
proof (cases "\<exists>sd. dict_get (call_args fc) ''safety_decision'' VNone = VDict sd")
  case False
  then show ?thesis using plain by blast
next
  case True
  then obtain sd where sd: "dict_get (call_args fc) ''safety_decision'' VNone = VDict sd" ..
  show ?thesis
  proof (cases "get_safety_confirmation env sd lines")
    case (Inl e)
    with sd show ?thesis using eof by blast
  next
    case (Inr p)
    obtain d rest where "p = (d, rest)" by (cases p)
    with Inr sd show ?thesis using rejected approved by (cases "d = ''TERMINATE''") blast+
  qed
qed

text \<open>The batch follows the operator's verdict. A console that runs out ends it with
  the \<open>EOFError\<close>.\<close>

lemma execute_calls_eof:
  "first_rejection env fcs (stdin w) = Inl e \<Longrightarrow> execute_calls env sw sh fcs acc w = Inl e"
proof (induction fcs arbitrary: acc w)
  case Nil
  then show ?case by simp
next
  case (Cons fc fcs)
  obtain r pg where t: "try_action env (fc_name fc) (call_args fc) sw sh (browser w) = (r, pg)"
    by (cases "try_action env (fc_name fc) (call_args fc) sw sh (browser w)")
  show ?case
  proof (cases rule: gate_cases [where fc = fc and env = env and lines = "stdin w"])
    case plain
    from Cons.prems [unfolded first_rejection_plain [OF plain] later_Inl]
    have "first_rejection env fcs (stdin (w\<lparr>browser := pg\<rparr>)) = Inl e"
      by simp
    then show ?thesis unfolding execute_calls_plain [OF plain t] by (rule Cons.IH)
  next
    case (eof sd e')
    with Cons.prems show ?thesis by (simp add: Let_def)
  next
    case (rejected sd rest)
    with Cons.prems show ?thesis by simp
  next
    case (approved sd d rest)
    with Cons.prems have "first_rejection env fcs (stdin (w\<lparr>browser := pg, stdin := rest\<rparr>)) = Inl e"
      by (simp add: later_Inl)
    then show ?thesis unfolding execute_calls_approved [OF approved t] by (rule Cons.IH)
  qed
qed

lemma execute_calls_verdict:
  "first_rejection env fcs (stdin w) = Inr v \<Longrightarrow>
   \<exists>new w'. execute_calls env sw sh fcs acc w = Inr (acc @ new, v \<noteq> None, w')
      \<and> map fst new = take (length new) (map fc_name fcs)
      \<and> (v = None \<longrightarrow> length new = length fcs)
      \<and> (\<forall>k. v = Some k \<longrightarrow> k < length fcs \<and> length new = Suc k
            \<and> (\<exists>r1 w1. execute_calls env sw sh (take k fcs) acc w = Inr (acc @ r1, False, w1)
                  \<and> new = r1 @ [(fc_name (fcs ! k), [(''terminated_by_user'', VBool True)],
                                  [(''safety_acknowledgement'', VStr ''false'')])]
                  \<and> browser w' = browser w1))"
proof (induction fcs arbitrary: acc w v)
  case Nil
  then show ?case by simp
next
  case (Cons fc fcs)
  obtain r pg where t: "try_action env (fc_name fc) (call_args fc) sw sh (browser w) = (r, pg)"
    by (cases "try_action env (fc_name fc) (call_args fc) sw sh (browser w)")
  have go_on: ?case
    if step: "\<And>tl. execute_calls env sw sh (fc # tl) acc w
                      = execute_calls env sw sh tl (acc @ [(fc_name fc, r, extra)]) w1"
      and v0: "first_rejection env fcs (stdin w1) = Inr v0" "v = map_option Suc v0"
    for extra w1 v0
  proof -
    let ?acc = "acc @ [(fc_name fc, r, extra)]"
    from Cons.IH [OF v0(1), of ?acc] obtain new w' where
      e: "execute_calls env sw sh fcs ?acc w1 = Inr (?acc @ new, v0 \<noteq> None, w')"
      and n: "map fst new = take (length new) (map fc_name fcs)"
      and a: "v0 = None \<longrightarrow> length new = length fcs"
      and b: "\<forall>k. v0 = Some k \<longrightarrow> k < length fcs \<and> length new = Suc k
            \<and> (\<exists>r1 w2. execute_calls env sw sh (take k fcs) ?acc w1 = Inr (?acc @ r1, False, w2)
                  \<and> new = r1 @ [(fc_name (fcs ! k), [(''terminated_by_user'', VBool True)],
                                  [(''safety_acknowledgement'', VStr ''false'')])]
                  \<and> browser w' = browser w2)"
      by blast
    let ?new = "(fc_name fc, r, extra) # new"
    have 1: "execute_calls env sw sh (fc # fcs) acc w = Inr (acc @ ?new, v \<noteq> None, w')"
      unfolding step using e v0(2) by (cases v0) simp_all
    have 2: "map fst ?new = take (length ?new) (map fc_name (fc # fcs))"
      using n by simp
    have 3: "v = None \<longrightarrow> length ?new = length (fc # fcs)"
      using a v0(2) by simp
    have 4: "k < length (fc # fcs) \<and> length ?new = Suc k
            \<and> (\<exists>r1 w2. execute_calls env sw sh (take k (fc # fcs)) acc w = Inr (acc @ r1, False, w2)
                  \<and> ?new = r1 @ [(fc_name ((fc # fcs) ! k), [(''terminated_by_user'', VBool True)],
                                  [(''safety_acknowledgement'', VStr ''false'')])]
                  \<and> browser w' = browser w2)" if "v = Some k" for k
    proof -
      from that v0(2) obtain k0 where k0: "v0 = Some k0" "k = Suc k0" by auto
      from b k0(1) obtain r1 w2 where
        r1: "k0 < length fcs" "length new = Suc k0"
          "execute_calls env sw sh (take k0 fcs) ?acc w1 = Inr (?acc @ r1, False, w2)"
          "new = r1 @ [(fc_name (fcs ! k0), [(''terminated_by_user'', VBool True)],
                                  [(''safety_acknowledgement'', VStr ''false'')])]"
          "browser w' = browser w2"
        by blast
      have "execute_calls env sw sh (take k (fc # fcs)) acc w
              = Inr (acc @ ((fc_name fc, r, extra) # r1), False, w2)"
        unfolding k0(2) take_Suc_Cons step using r1(3) by simp
      with r1 k0(2) show ?thesis by auto
    qed
    from 1 2 3 4 show ?thesis by blast
  qed
  show ?case
  proof (cases rule: gate_cases [where fc = fc and env = env and lines = "stdin w"])
    case plain
    from Cons.prems [unfolded first_rejection_plain [OF plain] later_Inr] obtain v0 where
      "first_rejection env fcs (stdin (w\<lparr>browser := pg\<rparr>)) = Inr v0" "v = map_option Suc v0"
      by auto
    with execute_calls_plain [OF plain t] show ?thesis by (rule go_on)
  next
    case (eof sd e)
    with Cons.prems show ?thesis by simp
  next
    case (rejected sd rest)
    with Cons.prems have v: "v = Some 0" by simp
    show ?thesis
      unfolding execute_calls_rejected [OF rejected] v by simp
  next
    case (approved sd d rest)
    with Cons.prems obtain v0 where
      "first_rejection env fcs (stdin (w\<lparr>browser := pg, stdin := rest\<rparr>)) = Inr v0"
      "v = map_option Suc v0"
      by (auto simp: later_Inr)
    with execute_calls_approved [OF approved t] show ?thesis by (rule go_on)
  qed
qed

text \<open>
  C1, as the spec states it, fails when a safety rejection occurs partway through the
  batch: the loop breaks at the rejected call, and the calls after it get no result.
  Here the turn has three calls, the operator rejects the second, and two results come
  back.
\<close>

theorem results_shorter_after_rejection:
  "execute_function_calls (test_env never_raises silent_model) guarded_batch (fresh_world [''n''])
     SCREEN_WIDTH SCREEN_HEIGHT
   = Inr ([(''open_web_browser'', [], []),
           (''click_at'', [(''terminated_by_user'', VBool True)],
                          [(''safety_acknowledgement'', VStr ''false'')])],
          True,
          \<lparr>browser = [WaitForLoadState ''networkidle'' 5000, Sleep (4 / 5)], stdin = []\<rparr>)
   \<and> length (function_calls_of guarded_batch) = 3"
  by code_simp

text \<open>
  C1 (amended): what the dispatcher returns for a model turn is fixed by the operator's
  answers. When the operator rejects no safety decision of the turn, there is one result
  per request, result \<open>i\<close> carrying the name of request \<open>i\<close>. When the first decision
  the operator rejects is that of request \<open>k\<close> (counted from 0), there are \<open>k + 1\<close>
  results, result \<open>i\<close> carrying the name of request \<open>i\<close>; the last one is the
  rejection recorded for request \<open>k\<close>, and the requests after it get no result. When
  the console ends before the operator has answered, the \<open>EOFError\<close> is raised and
  there are no results.
\<close>

theorem results_follow_requests:
  "(first_rejection env (function_calls_of cand) (stdin w) = Inr None \<longrightarrow>
      (\<exists>results w'. execute_function_calls env cand w sw sh = Inr (results, False, w')
          \<and> length results = length (function_calls_of cand)
          \<and> map fst results = map fc_name (function_calls_of cand)))
   \<and> (\<forall>k. first_rejection env (function_calls_of cand) (stdin w) = Inr (Some k) \<longrightarrow>
      (\<exists>results w'. execute_function_calls env cand w sw sh = Inr (results, True, w')
          \<and> k < length (function_calls_of cand)
          \<and> length results = Suc k
          \<and> map fst results = take (Suc k) (map fc_name (function_calls_of cand))
          \<and> last results = (fc_name (function_calls_of cand ! k),
                             [(''terminated_by_user'', VBool True)],
                             [(''safety_acknowledgement'', VStr ''false'')])))
   \<and> (\<forall>e. first_rejection env (function_calls_of cand) (stdin w) = Inl e \<longrightarrow>
          execute_function_calls env cand w sw sh = Inl e)"
proof (intro conjI allI impI)
  assume "first_rejection env (function_calls_of cand) (stdin w) = Inr None"
  from execute_calls_verdict [OF this, of sw sh "[]"]
  show "\<exists>results w'. execute_function_calls env cand w sw sh = Inr (results, False, w')
          \<and> length results = length (function_calls_of cand)
          \<and> map fst results = map fc_name (function_calls_of cand)"
    by (auto simp: execute_function_calls_def)
next
  fix k
  assume "first_rejection env (function_calls_of cand) (stdin w) = Inr (Some k)"
  from execute_calls_verdict [OF this, of sw sh "[]"]
  show "\<exists>results w'. execute_function_calls env cand w sw sh = Inr (results, True, w')
          \<and> k < length (function_calls_of cand)
          \<and> length results = Suc k
          \<and> map fst results = take (Suc k) (map fc_name (function_calls_of cand))
          \<and> last results = (fc_name (function_calls_of cand ! k),
                             [(''terminated_by_user'', VBool True)],
                             [(''safety_acknowledgement'', VStr ''false'')])"
    by (auto simp: execute_function_calls_def)
next
  fix e
  assume "first_rejection env (function_calls_of cand) (stdin w) = Inl e"
  then show "execute_function_calls env cand w sw sh = Inl e"
    by (simp add: execute_function_calls_def execute_calls_eof)
qed

text \<open>The turn of three requests, the second guarded: approved by the operator after one
  line that is no answer, then rejected.\<close>

theorem results_follow_requests_witness:
  "first_rejection (test_env never_raises silent_model) (function_calls_of guarded_batch)
     (stdin (fresh_world [''maybe'', '' Yes ''])) = Inr None
   \<and> execute_function_calls (test_env never_raises silent_model) guarded_batch
       (fresh_world [''maybe'', '' Yes '']) SCREEN_WIDTH SCREEN_HEIGHT
     = Inr ([(''open_web_browser'', [], []),
             (''click_at'', [], [(''safety_acknowledgement'', VStr ''true'')]),
             (''navigate'', [], [])],
            False,
            \<lparr>browser = [WaitForLoadState ''networkidle'' 5000, Sleep (4 / 5),
                        Click 720 450, WaitForLoadState ''networkidle'' 5000, Sleep (4 / 5),
                        Goto ''https://example.com'' ''domcontentloaded'',
                        WaitForLoadState ''networkidle'' 5000, Sleep (4 / 5)],
              stdin = []\<rparr>)
   \<and> map fc_name (function_calls_of guarded_batch) = [''open_web_browser'', ''click_at'', ''navigate'']
   \<and> first_rejection (test_env never_raises silent_model) (function_calls_of guarded_batch)
       (stdin (fresh_world [''No''])) = Inr (Some 1)"
proof -
  let ?env = "test_env never_raises silent_model"
  have v: "first_rejection ?env (function_calls_of guarded_batch)
             (stdin (fresh_world [''maybe'', '' Yes ''])) = Inr None"
    by code_simp
  have v': "first_rejection ?env (function_calls_of guarded_batch)
             (stdin (fresh_world [''No''])) = Inr (Some 1)"
    by code_simp
  have h: "execute_function_calls ?env guarded_batch
     (fresh_world [''maybe'', '' Yes '']) SCREEN_WIDTH SCREEN_HEIGHT
   = Inr ([(''open_web_browser'', [], []),
           (''click_at'', [], [(''safety_acknowledgement'', VStr ''true'')]),
           (''navigate'', [], [])],
          False,
          \<lparr>browser = [WaitForLoadState ''networkidle'' 5000, Sleep (4 / 5),
                      Click 720 450, WaitForLoadState ''networkidle'' 5000, Sleep (4 / 5),
                      Goto ''https://example.com'' ''domcontentloaded'',
                      WaitForLoadState ''networkidle'' 5000, Sleep (4 / 5)],
            stdin = []\<rparr>)"
    by code_simp
  from results_follow_requests [of ?env guarded_batch "fresh_world [''maybe'', '' Yes '']"
         SCREEN_WIDTH SCREEN_HEIGHT] v h
  have "map fc_name (function_calls_of guarded_batch) = [''open_web_browser'', ''click_at'', ''navigate'']"
    by auto
  with v v' h show ?thesis by simp
qed

subsection \<open>Exceptions become results\<close>






section \<open>Properties of the response builder\<close>

lemma map_of_dict_update_other:
  "map_of other k = None \<Longrightarrow> map_of (dict_update d other) k = map_of d k"
proof -
  have "map_of other k = None \<Longrightarrow>
        map_of (fold (\<lambda>(k, v). AList.update k v) other d) k = map_of d k" for d
  proof (induction other arbitrary: d)
    case Nil
    show ?case by simp
  next
    case (Cons kv other)
    obtain k' v where kv: "kv = (k', v)" by (cases kv)
    from Cons.prems kv have ne: "k' \<noteq> k" and rest: "map_of other k = None"
      by (auto split: if_splits)
    have "map_of (fold (\<lambda>(k, v). AList.update k v) other (AList.update k' v d)) k
            = map_of (AList.update k' v d) k"
      by (rule Cons.IH [OF rest])
    also have "\<dots> = map_of d k"
      using ne by (simp add: update_conv')
    finally show ?case by (simp add: kv)
  qed
  then show "map_of other k = None \<Longrightarrow> map_of (dict_update d other) k = map_of d k"
    by (simp add: dict_update_def)
qed

lemma build_response_fields:
  "fr_name (build_response u shot e) = fst e"
  "fr_parts (build_response u shot e) = [\<lparr>mime_type = ''image/png'', data = shot\<rparr>]"
  by (simp_all add: build_response_def Let_def split: prod.splits)

lemma build_response_url:
  "no_url_key e \<Longrightarrow> map_of (fr_response (build_response u shot e)) ''url'' = Some (VStr u)"
  by (auto simp: build_response_def no_url_key_def Let_def map_of_dict_update_other
           split: prod.splits)

lemma try_action_result:
  "try_action env f a sw sh pg = (r, pg') \<Longrightarrow> map_of r ''url'' = None"
  by (auto simp: try_action_def split: prod.splits option.splits)

lemma execute_calls_no_url:
  "execute_calls env sw sh fcs acc w = Inr (results, t, w') \<Longrightarrow>
   list_all no_url_key acc \<Longrightarrow> list_all no_url_key results"
proof (induction fcs arbitrary: acc w)
  case Nil
  then show ?case by simp
next
  case (Cons fc fcs)
  show ?case
  proof (cases "\<exists>sd rest. dict_get (call_args fc) ''safety_decision'' VNone = VDict sd
                  \<and> get_safety_confirmation env sd (stdin w) = Inr (''TERMINATE'', rest)")
    case True
    then obtain sd rest where sd: "dict_get (call_args fc) ''safety_decision'' VNone = VDict sd"
      and g: "get_safety_confirmation env sd (stdin w) = Inr (''TERMINATE'', rest)" by blast
    from Cons.prems(1) sd g have "results = acc @ [(fc_name fc, [(''terminated_by_user'', VBool True)],
        [(''safety_acknowledgement'', VStr ''false'')])]"
      by (simp add: Let_def)
    with Cons.prems(2) show ?thesis by (simp add: no_url_key_def)
  next
    case False
    with Cons.prems(1) obtain r extra pg w1 where
      rec: "execute_calls env sw sh fcs (acc @ [(fc_name fc, r, extra)]) w1 = Inr (results, t, w')"
      and tr: "try_action env (fc_name fc) (call_args fc) sw sh (browser w) = (r, pg)"
      and ex: "extra = [] \<or> extra = [(''safety_acknowledgement'', VStr ''true'')]"
      by (auto simp: Let_def split: pyval.splits sum.splits prod.splits if_splits)
    have "no_url_key (fc_name fc, r, extra)"
      using try_action_result [OF tr] ex by (auto simp: no_url_key_def)
    with Cons.prems(2) have "list_all no_url_key (acc @ [(fc_name fc, r, extra)])" by simp
    from Cons.IH [OF rec this] show ?thesis .
  qed
qed

text \<open>
  C7: for every list of \<open>N\<close> entries produced by executing a batch, the response
  builder, once its capture has been taken (the capture is the one call in it that can
  raise), returns exactly \<open>N\<close> response bundles, bundle \<open>i\<close> carrying the name of
  entry \<open>i\<close>; it captures one screenshot, after the batch; every bundle carries under
  \<open>url\<close> the address of the page and, as its only part, those same screenshot bytes
  as \<open>image/png\<close>.
\<close>

theorem responses_match_results:
  assumes "execute_function_calls env cand w sw sh = Inr (results, t, w')"
      and "driver_raises env pg (Screenshot ''png'') = None"
  shows "\<exists>frs pg'. get_function_responses env pg results = Inr (frs, pg')
       \<and> length frs = length results
       \<and> map fr_name frs = map fst results
       \<and> pg' = pg @ [Screenshot ''png'']
       \<and> (\<forall>fr \<in> set frs.
             map_of (fr_response fr) ''url'' = Some (VStr (page_url env pg'))
           \<and> fr_parts fr = [\<lparr>mime_type = ''image/png'', data = page_screenshot env pg\<rparr>])"
proof -
  define pg' where "pg' = pg @ [Screenshot ''png'']"
  define frs where "frs = map (build_response (page_url env pg') (page_screenshot env pg)) results"
  have nu: "list_all no_url_key results"
    using execute_calls_no_url [of env sw sh "function_calls_of cand" "[]" w results t w'] assms(1)
    by (simp add: execute_function_calls_def)
  have g: "get_function_responses env pg results = Inr (frs, pg')"
    using assms(2) by (simp add: get_function_responses_def driver_def Let_def frs_def pg'_def)
  have "length frs = length results" by (simp add: frs_def)
  moreover have "map fr_name frs = map fst results"
    by (simp add: frs_def build_response_fields comp_def)
  moreover have "\<forall>fr \<in> set frs.
             map_of (fr_response fr) ''url'' = Some (VStr (page_url env pg'))
           \<and> fr_parts fr = [\<lparr>mime_type = ''image/png'', data = page_screenshot env pg\<rparr>]"
    using nu by (auto simp: frs_def build_response_fields build_response_url list_all_iff)
  ultimately show ?thesis using g pg'_def by blast
qed

text \<open>A click that raises and a navigation, then the capture: two bundles, both with
  the address reached and the one screenshot.\<close>

theorem responses_match_results_witness:
  "execute_function_calls (test_env click_raises silent_model)
     (turn_of [call ''click_at'' [(''x'', VInt 500), (''y'', VInt 500)],
               call ''navigate'' [(''url'', VStr ''example.com'')]])
     (fresh_world []) SCREEN_WIDTH SCREEN_HEIGHT
   = Inr ([(''click_at'', [(''error'', VStr ''Target closed'')], []), (''navigate'', [], [])],
          False,
          \<lparr>browser = [Click 720 450, Goto ''https://example.com'' ''domcontentloaded'',
                      WaitForLoadState ''networkidle'' 5000, Sleep (4 / 5)],
            stdin = []\<rparr>)
   \<and> driver_raises (test_env click_raises silent_model)
       [Click 720 450, Goto ''https://example.com'' ''domcontentloaded'',
        WaitForLoadState ''networkidle'' 5000, Sleep (4 / 5)] (Screenshot ''png'') = None
   \<and> get_function_responses (test_env click_raises silent_model)
       [Click 720 450, Goto ''https://example.com'' ''domcontentloaded'',
        WaitForLoadState ''networkidle'' 5000, Sleep (4 / 5)]
       [(''click_at'', [(''error'', VStr ''Target closed'')], []), (''navigate'', [], [])]
     = Inr ([\<lparr>fr_name = ''click_at'',
              fr_response = [(''url'', VStr ''https://example.com''), (''error'', VStr ''Target closed'')],
              fr_parts = [\<lparr>mime_type = ''image/png'', data = ''PNG4''\<rparr>]\<rparr>,
             \<lparr>fr_name = ''navigate'',
              fr_response = [(''url'', VStr ''https://example.com'')],
              fr_parts = [\<lparr>mime_type = ''image/png'', data = ''PNG4''\<rparr>]\<rparr>],
            [Click 720 450, Goto ''https://example.com'' ''domcontentloaded'',
             WaitForLoadState ''networkidle'' 5000, Sleep (4 / 5), Screenshot ''png''])"
proof -
  let ?env = "test_env click_raises silent_model"
  let ?pg = "[Click 720 450, Goto ''https://example.com'' ''domcontentloaded'',
              WaitForLoadState ''networkidle'' 5000, Sleep (4 / 5)]"
  let ?results = "[(''click_at'', [(''error'', VStr ''Target closed'')], []), (''navigate'', [], [])]"
  have h: "execute_function_calls ?env
     (turn_of [call ''click_at'' [(''x'', VInt 500), (''y'', VInt 500)],
               call ''navigate'' [(''url'', VStr ''example.com'')]])
     (fresh_world []) SCREEN_WIDTH SCREEN_HEIGHT
   = Inr (?results, False, \<lparr>browser = ?pg, stdin = []\<rparr>)"
    by code_simp
  have c: "driver_raises ?env ?pg (Screenshot ''png'') = None"
    by (simp add: test_env_def click_raises_def)
  have g: "get_function_responses ?env ?pg ?results
     = Inr ([\<lparr>fr_name = ''click_at'',
          fr_response = [(''url'', VStr ''https://example.com''), (''error'', VStr ''Target closed'')],
          fr_parts = [\<lparr>mime_type = ''image/png'', data = ''PNG4''\<rparr>]\<rparr>,
         \<lparr>fr_name = ''navigate'',
          fr_response = [(''url'', VStr ''https://example.com'')],
          fr_parts = [\<lparr>mime_type = ''image/png'', data = ''PNG4''\<rparr>]\<rparr>],
        ?pg @ [Screenshot ''png''])"
    by code_simp
  from responses_match_results [OF h c]
  have "\<exists>frs pg'. get_function_responses ?env ?pg ?results = Inr (frs, pg')"
    by (elim exE conjE) (intro exI)
  with h c g show ?thesis by simp
qed

section \<open>Properties of the agent loop\<close>


subsection \<open>The first request\<close>

text \<open>
  C4 does not hold of the code, and the code is at fault: \<open>run_agent_loop\<close> sets up
  no conversation history. It never assigns \<open>contents\<close> and never reads \<open>user_goal\<close>;
  where the statements should be there is a comment. Every call of it, whatever the goal,
  the page and the model, raises \<open>NameError\<close> in the first pass of the loop, when the
  arguments of the model call are evaluated, so the model is not invoked at all, with
  the goal or without.
\<close>

theorem run_agent_loop_raises_name_error:
  "run_agent_loop env w user_goal
   = Inl (NameError (''name '' @ [CHR 0x27] @ ''contents'' @ [CHR 0x27] @ '' is not defined''))"
  by (simp add: run_agent_loop_def module_contents_def)

subsection \<open>The turn limit\<close>







subsection \<open>A rejected safety decision\<close>




end
